theory Spec2Isabelle
  imports Complex_Main "HOL-Library.Multiset" "HOL-Library.AList"
begin


section \<open>Common data\<close>

text \<open>
  The exceptions the modelled code can raise. Every raise of the source (or of a library
  routine it calls) is a branch of the model that returns \<open>Inl\<close> of one of these.
\<close>

datatype error =
  ZeroDivisionError | ValueError | KeyError | IndexError | RuntimeError | DanglingReference

text \<open>
  Python's \<^verbatim>\<open>int(x)\<close> on a non-integral number truncates towards zero.
\<close>

definition py_int :: "rat \<Rightarrow> int" where
  "py_int x = (if 0 \<le> x then \<lfloor>x\<rfloor> else \<lceil>x\<rceil>)"

subsection \<open>Floating-point numbers\<close>

text \<open>
  A Python \<^verbatim>\<open>float\<close> is an IEEE 754 binary64 number and the entries of a default torch
  tensor are binary32 numbers. A finite floating-point number is a rational, and the
  result of an arithmetic operation is the exact result rounded to the nearest number of
  the format, a tie going to the neighbour with an even significand. The numbers of a
  format with \<open>p\<close> significand bits and least exponent \<open>emin\<close> are the integer multiples
  \<open>m * 2 ^ u\<close> with \<open>\<bar>m\<bar> < 2 ^ p\<close> and \<open>u \<ge> emin\<close>; around \<open>x\<close> with
  \<open>2 ^ e \<le> \<bar>x\<bar> < 2 ^ (e + 1)\<close> they are spaced \<open>2 ^ max (e - (p - 1)) emin\<close> apart
  (\<open>binary_exponent\<close> computes this \<open>e\<close>, from the number of binary digits of
  \<open>\<lfloor>\<bar>x\<bar>\<rfloor>\<close> or of \<open>\<lceil>1 / \<bar>x\<bar>\<rceil> - 1\<close>).
  Infinities, NaN and the sign of zero are not represented: the model covers the
  computations whose operands and results stay inside the finite range of the format.
\<close>

function bit_length :: "int \<Rightarrow> nat" where
  "bit_length n = (if n \<le> 0 then 0 else Suc (bit_length (n div 2)))"
  by pat_completeness auto
termination
  by (relation "measure nat") auto

declare bit_length.simps [simp del]

definition binary_exponent :: "rat \<Rightarrow> int" where
  "binary_exponent x =
     (if 1 \<le> \<bar>x\<bar> then int (bit_length \<lfloor>\<bar>x\<bar>\<rfloor>) - 1
      else - int (bit_length (\<lceil>1 / \<bar>x\<bar>\<rceil> - 1)))"

definition round_half_even :: "rat \<Rightarrow> int" where
  "round_half_even q =
     (let f = \<lfloor>q\<rfloor>; d = q - of_int f
      in if d < 1 / 2 then f else if 1 / 2 < d then f + 1 else if even f then f else f + 1)"

definition round_to_format :: "nat \<Rightarrow> int \<Rightarrow> rat \<Rightarrow> rat" where
  "round_to_format p emin x =
     (if x = 0 then 0
      else let u = max (binary_exponent x - (int p - 1)) emin
           in sgn x * of_int (round_half_even (\<bar>x\<bar> / 2 powi u)) * 2 powi u)"

definition round_to_double :: "rat \<Rightarrow> rat" where
  "round_to_double = round_to_format 53 (- 1074)"

definition round_to_single :: "rat \<Rightarrow> rat" where
  "round_to_single = round_to_format 24 (- 149)"

text \<open>
  The operations on Python floats that the program uses. An \<^verbatim>\<open>int\<close> operand is
  converted to a float first. The operands are rounded on entry, so that a decimal
  literal such as \<^verbatim>\<open>0.2\<close> can be written as the fraction it abbreviates.
\<close>

definition float_mul :: "rat \<Rightarrow> rat \<Rightarrow> rat" where
  "float_mul x y = round_to_double (round_to_double x * round_to_double y)"

definition float_add :: "rat \<Rightarrow> rat \<Rightarrow> rat" where
  "float_add x y = round_to_double (round_to_double x + round_to_double y)"

definition float_div :: "rat \<Rightarrow> rat \<Rightarrow> error + rat" where
  "float_div x y =
     (if round_to_double y = 0 then Inl ZeroDivisionError
      else Inr (round_to_double (round_to_double x / round_to_double y)))"

text \<open>
  Indexing a Python list: a negative index counts from the end, and an index outside the
  list raises IndexError.
\<close>

definition py_getitem :: "'a list \<Rightarrow> int \<Rightarrow> error + 'a" where
  "py_getitem xs i =
     (if 0 \<le> i \<and> i < int (length xs) then Inr (xs ! nat i)
      else if i < 0 \<and> - int (length xs) \<le> i then Inr (xs ! nat (int (length xs) + i))
      else Inl IndexError)"

section \<open>The partitioner\<close>

subsection \<open>The library routines it calls\<close>

text \<open>
  \<^verbatim>\<open>np.arange(n)\<close>: the integers \<open>0 .. n-1\<close>, empty when \<open>n \<le> 0\<close>.
\<close>

definition arange :: "int \<Rightarrow> nat list" where
  "arange n = [0..<nat n]"

text \<open>
  \<^verbatim>\<open>np.array_split(ary, sections)\<close> with an integer \<open>sections\<close>: it raises ValueError
  unless \<open>sections > 0\<close>; otherwise, with \<open>(each, extras) = divmod(len(ary), sections)\<close>,
  it cuts \<open>ary\<close> into \<open>extras\<close> consecutive pieces of \<open>each + 1\<close> elements followed by
  \<open>sections - extras\<close> pieces of \<open>each\<close> elements.
\<close>

fun split_at_sizes :: "'a list \<Rightarrow> nat list \<Rightarrow> 'a list list" where
  "split_at_sizes xs [] = []"
| "split_at_sizes xs (n # ns) = take n xs # split_at_sizes (drop n xs) ns"

definition section_sizes :: "nat \<Rightarrow> nat \<Rightarrow> nat list" where
  "section_sizes Ntotal Nsections =
     (let Neach_section = Ntotal div Nsections; extras = Ntotal mod Nsections
      in replicate extras (Neach_section + 1) @ replicate (Nsections - extras) Neach_section)"

definition array_split :: "'a list \<Rightarrow> int \<Rightarrow> error + 'a list list" where
  "array_split ary sections =
     (if sections \<le> 0 then Inl ValueError
      else Inr (split_at_sizes ary (section_sizes (length ary) (nat sections))))"

text \<open>
  The state of numpy's global generator is modelled by the stream of raw draws it will
  still deliver: \<open>g 0\<close> is the next draw and \<open>g \<circ> Suc\<close> the state after it. A bounded draw
  reduces the raw draw to the requested range. Which stream a seed yields is a parameter
  (\<open>seed_state\<close> below); \<^verbatim>\<open>np.random.seed\<close> accepts only seeds in \<open>0 .. 2^32 - 1\<close> and
  replaces the generator's state, whatever it was.
\<close>

type_synonym rng = "nat \<Rightarrow> nat"

definition random_below :: "nat \<Rightarrow> rng \<Rightarrow> nat \<times> rng" where
  "random_below n g = (g 0 mod n, g \<circ> Suc)"

definition np_random_seed :: "(int \<Rightarrow> rng) \<Rightarrow> int \<Rightarrow> rng \<Rightarrow> error + rng" where
  "np_random_seed seed_state seed g =
     (if seed < 0 \<or> 2 ^ 32 \<le> seed then Inl ValueError else Inr (seed_state seed))"

text \<open>
  \<^verbatim>\<open>np.random.shuffle(x)\<close> on a Python list: for \<open>i\<close> from \<open>len(x) - 1\<close> down to \<open>1\<close>,
  draw \<open>j\<close> in \<open>0 .. i\<close> and swap \<open>x[i]\<close> with \<open>x[j]\<close>.
\<close>

fun shuffle_down :: "nat \<Rightarrow> 'a list \<Rightarrow> rng \<Rightarrow> 'a list \<times> rng" where
  "shuffle_down 0 x g = (x, g)"
| "shuffle_down (Suc i') x g =
     (let i = Suc i'; (j, g') = random_below (Suc i) g
      in shuffle_down i' (x[i := x ! j, j := x ! i]) g')"

definition np_random_shuffle :: "'a list \<Rightarrow> rng \<Rightarrow> 'a list \<times> rng" where
  "np_random_shuffle x g = shuffle_down (length x - 1) x g"

text \<open>
  \<^verbatim>\<open>np.random.choice(a, size)\<close> with integers \<open>a\<close> and \<open>size\<close> (here \<open>sz\<close>): \<open>sz\<close>
  draws from \<open>0 .. a-1\<close>, with replacement. It raises ValueError for a negative \<open>sz\<close>, and for
  an empty population unless no sample is taken.
\<close>

fun draws :: "nat \<Rightarrow> nat \<Rightarrow> rng \<Rightarrow> nat list \<times> rng" where
  "draws 0 a g = ([], g)"
| "draws (Suc k) a g =
     (let (j, g') = random_below a g; (js, g'') = draws k a g' in (j # js, g''))"

definition np_random_choice :: "nat \<Rightarrow> int \<Rightarrow> rng \<Rightarrow> error + (nat list \<times> rng)" where
  "np_random_choice a sz g =
     (if sz < 0 then Inl ValueError
      else if a = 0 \<and> sz \<noteq> 0 then Inl ValueError
      else Inr (draws (nat sz) a g))"

subsection \<open>The dataset\<close>

text \<open>
  A dataset is an indexable sequence of (input, label) pairs together with the list of
  its class names; the partitioner only uses the labels and the number of classes.
\<close>

record 'x dataset =
  items :: "('x \<times> nat) list"
  classes :: "string list"

subsection \<open>\<^verbatim>\<open>dataset_to_nodes_partitioning\<close>\<close>

text \<open>
  The result maps a device to its list of record indices and its list of allowed labels.
\<close>

type_synonym index_mapping = "nat \<rightharpoonup> nat list \<times> nat list"

text \<open>
  \<^verbatim>\<open>[index for index, (_, lab) in enumerate(train_dataset) if lab in classes]\<close>
\<close>

definition records_per_class :: "'x dataset \<Rightarrow> nat list \<Rightarrow> nat list" where
  "records_per_class train_dataset cls =
     map fst (filter (\<lambda>(index, (_, lab)). lab \<in> set cls) (enumerate 0 (items train_dataset)))"

text \<open>The inner loop \<^verbatim>\<open>for node in nodes\<close> (lines 105 to 109).\<close>

fun node_loop ::
  "nat list list \<Rightarrow> int \<Rightarrow> rat \<Rightarrow> nat list \<Rightarrow> nat list \<Rightarrow> index_mapping \<times> rng
     \<Rightarrow> error + (index_mapping \<times> rng)" where
  "node_loop split_record_per_node nodes_per_area data_fraction cls [] (index_mapping, g) =
     Inr (index_mapping, g)"
| "node_loop split_record_per_node nodes_per_area data_fraction cls (node # nodes) (index_mapping, g) =
     (case py_getitem split_record_per_node (int node mod nodes_per_area) of
        Inl e \<Rightarrow> Inl e
      | Inr lst \<Rightarrow>
          (let bound = py_int (float_mul (of_nat (length lst)) data_fraction)
           in case np_random_choice (length lst) bound g of
                Inl e \<Rightarrow> Inl e
              | Inr (indexes, g') \<Rightarrow>
                  if \<not> list_all (\<lambda>j. j < length lst) indexes then Inl IndexError
                  else node_loop split_record_per_node nodes_per_area data_fraction cls nodes
                         (index_mapping(node \<mapsto> (map (\<lambda>j. lst ! j) indexes, cls)), g')))"

text \<open>The outer loop over the areas (lines 99 to 109).\<close>

fun area_loop ::
  "'x dataset \<Rightarrow> bool \<Rightarrow> int \<Rightarrow> rat \<Rightarrow> (nat list \<times> nat list) list \<Rightarrow> index_mapping \<times> rng
     \<Rightarrow> error + (index_mapping \<times> rng)" where
  "area_loop train_dataset shuffling nodes_per_area data_fraction [] (index_mapping, g) =
     Inr (index_mapping, g)"
| "area_loop train_dataset shuffling nodes_per_area data_fraction ((nodes, cls) # rest) (index_mapping, g) =
     (let recs = records_per_class train_dataset cls;
          (recs', g1) = (if shuffling then np_random_shuffle recs g else (recs, g))
      in case array_split recs' nodes_per_area of
           Inl e \<Rightarrow> Inl e
         | Inr split_record_per_node \<Rightarrow>
             (case node_loop split_record_per_node nodes_per_area data_fraction cls nodes
                     (index_mapping, g1) of
                Inl e \<Rightarrow> Inl e
              | Inr st \<Rightarrow> area_loop train_dataset shuffling nodes_per_area data_fraction rest st))"

text \<open>
  The function itself. \<open>g0\<close> is the state of the global generator when the call is made,
  \<open>seed_state\<close> the stream a seed installs, \<open>train_dataset\<close> the dataset the call loads.
  \<^verbatim>\<open>int(nodes_count / areas)\<close> is a true division followed by truncation.
\<close>

definition dataset_to_nodes_partitioning ::
  "(int \<Rightarrow> rng) \<Rightarrow> 'x dataset \<Rightarrow> rng \<Rightarrow> int \<Rightarrow> int \<Rightarrow> int \<Rightarrow> bool \<Rightarrow> rat
     \<Rightarrow> error + (index_mapping \<times> rng)" where
  "dataset_to_nodes_partitioning seed_state train_dataset g0 nodes_count areas random_seed
       shuffling data_fraction =
     (case np_random_seed seed_state random_seed g0 of
        Inl e \<Rightarrow> Inl e
      | Inr g \<Rightarrow>
          if areas = 0 then Inl ZeroDivisionError
          else
            let nodes_per_area = py_int (of_int nodes_count / of_int areas);
                dataset_labels_count = length (classes train_dataset)
            in (case array_split (arange nodes_count) areas of
                  Inl e \<Rightarrow> Inl e
                | Inr split_nodes_per_area \<Rightarrow>
                    (case array_split (arange (int dataset_labels_count)) areas of
                       Inl e \<Rightarrow> Inl e
                     | Inr split_classes_per_area \<Rightarrow>
                         area_loop train_dataset shuffling nodes_per_area data_fraction
                           (zip split_nodes_per_area split_classes_per_area) (Map.empty, g))))"

section \<open>The aggregator\<close>

subsection \<open>Tensors and the object store\<close>

text \<open>
  A tensor is its shape and its entries in row-major order. \<^verbatim>\<open>average_weights\<close> updates
  tensors in place, so tensors and dictionaries are objects in a store, and a reference
  is a position in it. A \<^verbatim>\<open>state_dict\<close> is an ordered dictionary from parameter names to
  references to tensors. A position outside the store does not occur in a Python heap;
  the model answers it with \<open>DanglingReference\<close>.
\<close>

record tensor =
  shape :: "nat list"
  entries :: "rat list"

type_synonym state_dict = "(string \<times> nat) list"

record store =
  tensors :: "tensor list"
  dicts :: "state_dict list"

definition tensor_at :: "store \<Rightarrow> nat \<Rightarrow> error + tensor" where
  "tensor_at s a = (if a < length (tensors s) then Inr (tensors s ! a) else Inl DanglingReference)"

definition dict_at :: "store \<Rightarrow> nat \<Rightarrow> error + state_dict" where
  "dict_at s d = (if d < length (dicts s) then Inr (dicts s ! d) else Inl DanglingReference)"

text \<open>\<^verbatim>\<open>d[key]\<close> raises KeyError for a missing key.\<close>

definition dict_getitem :: "state_dict \<Rightarrow> string \<Rightarrow> error + nat" where
  "dict_getitem d key = (case map_of d key of None \<Rightarrow> Inl KeyError | Some a \<Rightarrow> Inr a)"

subsection \<open>The tensor operations used\<close>

text \<open>
  \<^verbatim>\<open>a += b\<close> on tensors adds \<open>b\<close> into \<open>a\<close> entry by entry, after expanding \<open>b\<close> to the
  shape of \<open>a\<close>: the shape of \<open>b\<close>, aligned at the last dimension, must agree with that of
  \<open>a\<close> in every dimension or be \<open>1\<close> there (then the entries are repeated), and \<open>b\<close> must
  not have more dimensions than \<open>a\<close>. Otherwise the operation raises RuntimeError.
\<close>

fun expand_to :: "nat list \<Rightarrow> rat list \<Rightarrow> nat list \<Rightarrow> rat list option" where
  "expand_to sb eb [] = (if sb = [] then Some eb else None)"
| "expand_to sb eb (d # sa) =
     (if length sb \<le> length sa then
        map_option (\<lambda>r. concat (replicate d r)) (expand_to sb eb sa)
      else if length sb = Suc (length sa) then
        (if hd sb = d then
           (let rs = map (\<lambda>blk. expand_to (tl sb) blk sa)
                       (split_at_sizes eb (replicate d (prod_list (tl sb))))
            in if list_all (\<lambda>r. r \<noteq> None) rs then Some (concat (map the rs)) else None)
         else if hd sb = 1 then
           map_option (\<lambda>r. concat (replicate d r)) (expand_to (tl sb) eb sa)
         else None)
      else None)"

definition tensor_iadd :: "tensor \<Rightarrow> tensor \<Rightarrow> error + tensor" where
  "tensor_iadd a b =
     (case (if shape b = shape a then Some (entries b)
            else expand_to (shape b) (entries b) (shape a)) of
        None \<Rightarrow> Inl RuntimeError
      | Some eb \<Rightarrow> Inr (a\<lparr>entries := map2 (+) (entries a) eb\<rparr>))"

text \<open>
  \<^verbatim>\<open>torch.div(t, n)\<close> with a number \<open>n\<close>: a new tensor, every entry divided by \<open>n\<close>. The
  aggregator only divides by the length of a non-empty list.
\<close>

definition torch_div :: "tensor \<Rightarrow> nat \<Rightarrow> tensor" where
  "torch_div t n = t\<lparr>entries := map (\<lambda>x. x / of_nat n) (entries t)\<rparr>"

subsection \<open>\<^verbatim>\<open>copy.deepcopy\<close> of a state dictionary\<close>

text \<open>
  The copy is a new dictionary with the same keys in the same order; each value is copied
  into a new tensor object, except that an object met a second time is given the copy
  made the first time (the memo of \<^verbatim>\<open>deepcopy\<close>), so sharing inside the original is
  sharing inside the copy.
\<close>

fun deepcopy_items ::
  "state_dict \<Rightarrow> (nat \<times> nat) list \<Rightarrow> store \<Rightarrow> (error + state_dict \<times> (nat \<times> nat) list) \<times> store" where
  "deepcopy_items [] memo s = (Inr ([], memo), s)"
| "deepcopy_items ((key, a) # kvs) memo s =
     (case map_of memo a of
        Some a' \<Rightarrow>
          (case deepcopy_items kvs memo s of
             (Inl e, s') \<Rightarrow> (Inl e, s')
           | (Inr (kvs', memo'), s') \<Rightarrow> (Inr ((key, a') # kvs', memo'), s'))
      | None \<Rightarrow>
          (case tensor_at s a of
             Inl e \<Rightarrow> (Inl e, s)
           | Inr t \<Rightarrow>
               (let a' = length (tensors s)
                in case deepcopy_items kvs ((a, a') # memo) (s\<lparr>tensors := tensors s @ [t]\<rparr>) of
                     (Inl e, s') \<Rightarrow> (Inl e, s')
                   | (Inr (kvs', memo'), s') \<Rightarrow> (Inr ((key, a') # kvs', memo'), s'))))"

definition deepcopy_dict :: "nat \<Rightarrow> store \<Rightarrow> (error + nat) \<times> store" where
  "deepcopy_dict d s =
     (case dict_at s d of
        Inl e \<Rightarrow> (Inl e, s)
      | Inr kvs \<Rightarrow>
          (case deepcopy_items kvs [] s of
             (Inl e, s') \<Rightarrow> (Inl e, s')
           | (Inr (kvs', memo), s') \<Rightarrow>
               (Inr (length (dicts s')), s'\<lparr>dicts := dicts s' @ [kvs']\<rparr>)))"

subsection \<open>\<^verbatim>\<open>average_weights\<close>\<close>

text \<open>
  The inner loop \<^verbatim>\<open>for i in range(1, len(models)): w_avg[key] += models[i][key]\<close>, run
  over \<^verbatim>\<open>models[1:]\<close>. The statement reads the tensor object under \<open>key\<close> in \<^verbatim>\<open>w_avg\<close>,
  adds into that object, and stores the (same) object back under \<open>key\<close>.
\<close>

fun accumulate :: "string \<Rightarrow> nat \<Rightarrow> nat list \<Rightarrow> store \<Rightarrow> (error + unit) \<times> store" where
  "accumulate key w_avg [] s = (Inr (), s)"
| "accumulate key w_avg (m # ms) s =
     (case dict_at s w_avg of Inl e \<Rightarrow> (Inl e, s) | Inr wd \<Rightarrow>
     (case dict_getitem wd key of Inl e \<Rightarrow> (Inl e, s) | Inr a \<Rightarrow>
     (case dict_at s m of Inl e \<Rightarrow> (Inl e, s) | Inr md \<Rightarrow>
     (case dict_getitem md key of Inl e \<Rightarrow> (Inl e, s) | Inr b \<Rightarrow>
     (case tensor_at s a of Inl e \<Rightarrow> (Inl e, s) | Inr ta \<Rightarrow>
     (case tensor_at s b of Inl e \<Rightarrow> (Inl e, s) | Inr tb \<Rightarrow>
     (case tensor_iadd ta tb of Inl e \<Rightarrow> (Inl e, s) | Inr t' \<Rightarrow>
        accumulate key w_avg ms
          (s\<lparr>tensors := (tensors s)[a := t'],
             dicts := (dicts s)[w_avg := AList.update key a wd]\<rparr>))))))))"

text \<open>
  The outer loop \<^verbatim>\<open>for key in w_avg.keys()\<close>: after the inner loop,
  \<^verbatim>\<open>w_avg[key] = torch.div(w_avg[key], len(models))\<close> binds \<open>key\<close> to a new tensor.
\<close>

fun average_keys :: "string list \<Rightarrow> nat \<Rightarrow> nat list \<Rightarrow> store \<Rightarrow> (error + unit) \<times> store" where
  "average_keys [] w_avg models s = (Inr (), s)"
| "average_keys (key # keys) w_avg models s =
     (case accumulate key w_avg (tl models) s of
        (Inl e, s1) \<Rightarrow> (Inl e, s1)
      | (Inr _, s1) \<Rightarrow>
     (case dict_at s1 w_avg of Inl e \<Rightarrow> (Inl e, s1) | Inr wd \<Rightarrow>
     (case dict_getitem wd key of Inl e \<Rightarrow> (Inl e, s1) | Inr a \<Rightarrow>
     (case tensor_at s1 a of Inl e \<Rightarrow> (Inl e, s1) | Inr t \<Rightarrow>
        average_keys keys w_avg models
          (s1\<lparr>tensors := tensors s1 @ [torch_div t (length models)],
              dicts := (dicts s1)[w_avg := AList.update key (length (tensors s1)) wd]\<rparr>)))))"

text \<open>
  \<open>models\<close> is the list of references to the state dictionaries. \<^verbatim>\<open>models[0]\<close> raises
  IndexError on an empty list. The result is the reference to the new dictionary, with
  the store the call leaves behind (also when it raises).
\<close>

definition average_weights :: "nat list \<Rightarrow> store \<Rightarrow> (error + nat) \<times> store" where
  "average_weights models s =
     (case models of
        [] \<Rightarrow> (Inl IndexError, s)
      | m0 # _ \<Rightarrow>
          (case deepcopy_dict m0 s of
             (Inl e, s1) \<Rightarrow> (Inl e, s1)
           | (Inr w_avg, s1) \<Rightarrow>
               (case dict_at s1 w_avg of
                  Inl e \<Rightarrow> (Inl e, s1)
                | Inr wd \<Rightarrow>
                    (case average_keys (map fst wd) w_avg models s1 of
                       (Inl e, s2) \<Rightarrow> (Inl e, s2)
                     | (Inr _, s2) \<Rightarrow> (Inr w_avg, s2)))))"

subsection \<open>Reading a state dictionary, and the mean the specification asks for\<close>



section \<open>The evaluator\<close>

text \<open>
  The network is a parameter: \<open>net model_w x\<close> is the row of class scores that the
  architecture, loaded with the parameters \<open>model_w\<close> and switched to inference mode,
  computes for the input \<open>x\<close>. In inference mode the row of an input does not depend on
  the other inputs of its batch.
\<close>

text \<open>
  \<^verbatim>\<open>DataLoader(data, batch_size=batch_size, shuffle=False)\<close>: the constructor raises
  ValueError unless \<open>batch_size > 0\<close>; iterating yields consecutive batches of
  \<open>batch_size\<close> examples, the last one possibly shorter.
\<close>

function batches :: "nat \<Rightarrow> 'a list \<Rightarrow> 'a list list" where
  "batches n xs = (if n = 0 \<or> xs = [] then [] else take n xs # batches n (drop n xs))"
  by pat_completeness auto
termination
  by (relation "measure (\<lambda>(n, xs). length xs)") auto

declare batches.simps [simp del]

definition data_loader :: "'a list \<Rightarrow> int \<Rightarrow> error + 'a list list" where
  "data_loader data batch_size =
     (if batch_size \<le> 0 then Inl ValueError else Inr (batches (nat batch_size) data))"

text \<open>
  \<^verbatim>\<open>nn.NLLLoss()\<close> on a batch: the mean over the batch of minus the score of the true
  label; a label that is not a class index raises IndexError.
\<close>

definition criterion :: "rat list list \<Rightarrow> nat list \<Rightarrow> error + rat" where
  "criterion outputs labels =
     (if \<not> list_all (\<lambda>(row, lab). lab < length row) (zip outputs labels) then Inl IndexError
      else Inr (sum_list (map (\<lambda>(row, lab). - (row ! lab)) (zip outputs labels))
                / of_nat (length labels)))"

text \<open>
  \<^verbatim>\<open>torch.max(outputs, 1)\<close> gives, for each row, the index of its maximum, the first
  one when the maximum occurs several times. (Rows are not empty when this is reached:
  the loss above has already looked up a label in each row.)
\<close>

fun argmax_from :: "nat \<Rightarrow> nat \<Rightarrow> rat \<Rightarrow> rat list \<Rightarrow> nat" where
  "argmax_from i best v [] = best"
| "argmax_from i best v (x # xs) =
     (if v < x then argmax_from (Suc i) i x xs else argmax_from (Suc i) best v xs)"

definition argmax :: "rat list \<Rightarrow> nat" where
  "argmax row = (case row of [] \<Rightarrow> 0 | x # xs \<Rightarrow> argmax_from 1 0 x xs)"

text \<open>
  The loop of \<^verbatim>\<open>evaluate\<close> over the batches, with the three accumulators \<open>loss\<close>,
  \<open>total\<close> (here \<open>total'\<close>) and \<open>correct\<close>.
\<close>

fun evaluate_loop ::
  "('x \<Rightarrow> rat list) \<Rightarrow> ('x \<times> nat) list list \<Rightarrow> rat \<times> rat \<times> rat \<Rightarrow> error + rat \<times> rat \<times> rat" where
  "evaluate_loop model [] (loss, total', correct) = Inr (loss, total', correct)"
| "evaluate_loop model (batch # rest) (loss, total', correct) =
     (let images = map fst batch; labels = map snd batch;
          outputs = map model images
      in case criterion outputs labels of
           Inl e \<Rightarrow> Inl e
         | Inr batch_loss \<Rightarrow>
             (let pred_labels = map argmax outputs
              in evaluate_loop model rest
                   (loss + batch_loss,
                    total' + of_nat (length labels),
                    correct + of_nat (length (filter (\<lambda>(p, l). p = l) (zip pred_labels labels))))))"

text \<open>
  \<^verbatim>\<open>evaluate(model_w, data, batch_size)\<close>. The final division raises ZeroDivisionError
  when no example was seen.
\<close>

definition evaluate ::
  "('w \<Rightarrow> 'x \<Rightarrow> rat list) \<Rightarrow> 'w \<Rightarrow> ('x \<times> nat) list \<Rightarrow> int \<Rightarrow> error + rat \<times> rat" where
  "evaluate net model_w data batch_size =
     (case data_loader data batch_size of
        Inl e \<Rightarrow> Inl e
      | Inr loader \<Rightarrow>
          (case evaluate_loop (net model_w) loader (0, 0, 0) of
             Inl e \<Rightarrow> Inl e
           | Inr (loss, total', correct) \<Rightarrow>
               if total' = 0 then Inl ZeroDivisionError
               else Inr (correct / total', loss)))"

section \<open>The round orchestrator\<close>

subsection \<open>The collaborators of the main program\<close>

text \<open>
  What the program prints, line by line.
\<close>

datatype out_line =
  RoundHeader nat
| DeviceLine nat nat
| MeanTrainLoss rat
| MeanValLoss rat
| MeanValAccuracy rat
| TestingHeader
| TestAccuracy rat

text \<open>
  The state the program runs in: the object store, the state \<open>env\<close> of what lies outside
  the program text (torch's generator, the optimiser), and the lines printed so far.
\<close>

record 'e world =
  heap :: store
  env :: 'e
  out :: "out_line list"

text \<open>
  The parts of torch that the program calls and that are not modelled further are
  parameters: \<open>forward\<close> (the scores the architecture computes from the parameters found under
  a reference in a store), \<open>randperm\<close> (the random permutation behind
  \<^verbatim>\<open>random_split\<close>), and \<open>local_training\<close> (the training routine of lines 113 to 130,
  which drives the optimiser on the model it is given and returns the reference to that
  model's state dictionary with the mean loss).
\<close>

record ('x, 'e) torch =
  forward :: "store \<Rightarrow> nat \<Rightarrow> 'x \<Rightarrow> rat list"
  randperm :: "nat \<Rightarrow> 'e \<Rightarrow> nat list \<times> 'e"
  local_training ::
    "nat \<Rightarrow> nat \<Rightarrow> ('x \<times> nat) list \<Rightarrow> int \<Rightarrow> store \<times> 'e \<Rightarrow> error + ((nat \<times> rat) \<times> store \<times> 'e)"

text \<open>
  A module is represented by the reference to the dictionary of its parameters.
  \<^verbatim>\<open>module.load_state_dict(state_dict)\<close> copies, name by name, the entries of the given
  tensors into the module's own tensors; it raises RuntimeError for a missing or an
  unexpected name and for a tensor of another shape.
\<close>

fun load_params :: "state_dict \<Rightarrow> state_dict \<Rightarrow> store \<Rightarrow> error + store" where
  "load_params [] src s = Inr s"
| "load_params ((key, a) # own) src s =
     (case dict_getitem src key of Inl e \<Rightarrow> Inl RuntimeError | Inr b \<Rightarrow>
     (case tensor_at s a of Inl e \<Rightarrow> Inl e | Inr own_param \<Rightarrow>
     (case tensor_at s b of Inl e \<Rightarrow> Inl e | Inr input_param \<Rightarrow>
        if shape input_param \<noteq> shape own_param then Inl RuntimeError
        else load_params own src
               (s\<lparr>tensors := (tensors s)[a := own_param\<lparr>entries := entries input_param\<rparr>]\<rparr>))))"

definition load_state_dict :: "nat \<Rightarrow> nat \<Rightarrow> store \<Rightarrow> error + store" where
  "load_state_dict module_ref state_dict_ref s =
     (case dict_at s module_ref of Inl e \<Rightarrow> Inl e | Inr own \<Rightarrow>
     (case dict_at s state_dict_ref of Inl e \<Rightarrow> Inl e | Inr src \<Rightarrow>
        if \<not> list_all (\<lambda>key. key \<in> set (map fst own)) (map fst src) then Inl RuntimeError
        else load_params own src s))"

text \<open>
  \<^verbatim>\<open>get_dataset(indexes)\<close>: the view of the training set through the index list. (The
  source looks a record up when it is read, so an index outside the training set raises
  then; the model raises at once.)
\<close>

definition get_dataset :: "'x dataset \<Rightarrow> nat list \<Rightarrow> error + ('x \<times> nat) list" where
  "get_dataset train_dataset indexes =
     (if list_all (\<lambda>i. i < length (items train_dataset)) indexes
      then Inr (map (\<lambda>i. items train_dataset ! i) indexes)
      else Inl IndexError)"

text \<open>
  \<^verbatim>\<open>train_val_split(data)\<close>: \<^verbatim>\<open>int(len(data) * 0.8)\<close> examples for training and the rest
  for validation, taken in the order of a random permutation of the positions.
\<close>

definition train_val_split ::
  "('x, 'e) torch \<Rightarrow> 'a list \<Rightarrow> 'e \<Rightarrow> error + (('a list \<times> 'a list) \<times> 'e)" where
  "train_val_split T data e =
     (let train_size = nat (py_int (of_nat (length data) * (8 / 10)));
          (perm, e') = randperm T (length data) e
      in if \<not> list_all (\<lambda>j. j < length data) perm then Inl IndexError
         else Inr ((map (\<lambda>j. data ! j) (take train_size perm),
                    map (\<lambda>j. data ! j) (drop train_size perm)), e'))"

subsection \<open>The loops of the main program\<close>

text \<open>
  The four lists a round collects, in the order \<^verbatim>\<open>local_weights\<close>, \<^verbatim>\<open>local_losses\<close>,
  \<^verbatim>\<open>val_losses\<close>, \<^verbatim>\<open>val_accuracies\<close>.
\<close>

type_synonym round_lists = "nat list \<times> rat list \<times> rat list \<times> rat list"

text \<open>The body of \<^verbatim>\<open>for i in range(devices)\<close> (lines 184 to 193).\<close>

definition device_body ::
  "('x, 'e) torch \<Rightarrow> 'x dataset \<Rightarrow> index_mapping \<Rightarrow> nat \<Rightarrow> nat \<Rightarrow> int \<Rightarrow> nat
     \<Rightarrow> round_lists \<times> 'e world \<Rightarrow> error + round_lists \<times> 'e world" where
  "device_body T train_dataset mapping global_model local_epochs batch_size i st =
     (case st of ((local_weights, local_losses, val_losses, val_accuracies), w) \<Rightarrow>
     (case mapping i of None \<Rightarrow> Inl KeyError | Some (idxs, _) \<Rightarrow>
     (case get_dataset train_dataset idxs of Inl e \<Rightarrow> Inl e | Inr data \<Rightarrow>
     (case train_val_split T data (env w) of Inl e \<Rightarrow> Inl e
      | Inr ((train_data, validation_data), e1) \<Rightarrow>
     (case deepcopy_dict global_model (heap w) of (Inl e, _) \<Rightarrow> Inl e
      | (Inr model_copy, h1) \<Rightarrow>
     (case local_training T model_copy local_epochs train_data batch_size (h1, e1) of
        Inl e \<Rightarrow> Inl e
      | Inr ((local_model, train_loss), h2, e2) \<Rightarrow>
     (case evaluate (forward T h2) local_model validation_data batch_size of Inl e \<Rightarrow> Inl e
      | Inr (val_accuracy, val_loss) \<Rightarrow>
     (case deepcopy_dict local_model h2 of (Inl e, _) \<Rightarrow> Inl e
      | (Inr local_copy, h3) \<Rightarrow>
          Inr ((local_weights @ [local_copy], local_losses @ [train_loss],
                val_losses @ [val_loss], val_accuracies @ [val_accuracy]),
               \<lparr>heap = h3, env = e2, out = out w @ [DeviceLine i (length idxs)]\<rparr>)))))))))"

fun device_loop ::
  "('x, 'e) torch \<Rightarrow> 'x dataset \<Rightarrow> index_mapping \<Rightarrow> nat \<Rightarrow> nat \<Rightarrow> int \<Rightarrow> nat list
     \<Rightarrow> round_lists \<times> 'e world \<Rightarrow> error + round_lists \<times> 'e world" where
  "device_loop T train_dataset mapping global_model local_epochs batch_size [] st = Inr st"
| "device_loop T train_dataset mapping global_model local_epochs batch_size (i # rest) st =
     (case device_body T train_dataset mapping global_model local_epochs batch_size i st of
        Inl e \<Rightarrow> Inl e
      | Inr st' \<Rightarrow>
          device_loop T train_dataset mapping global_model local_epochs batch_size rest st')"

text \<open>\<^verbatim>\<open>sum(xs) / len(xs)\<close>.\<close>

definition mean :: "rat list \<Rightarrow> error + rat" where
  "mean xs = (if xs = [] then Inl ZeroDivisionError else Inr (sum_list xs / of_nat (length xs)))"

text \<open>
  The body of \<^verbatim>\<open>for round in range(global_rounds)\<close> (lines 178 to 204). The state that
  goes from one round to the next is \<^verbatim>\<open>global_weights\<close> and the world; the module
  \<^verbatim>\<open>global_model\<close> is one object throughout.
\<close>

definition round_body ::
  "('x, 'e) torch \<Rightarrow> 'x dataset \<Rightarrow> index_mapping \<Rightarrow> nat \<Rightarrow> nat \<Rightarrow> int \<Rightarrow> int \<Rightarrow> nat
     \<Rightarrow> nat \<times> 'e world \<Rightarrow> error + nat \<times> 'e world" where
  "round_body T train_dataset mapping global_model local_epochs batch_size devices round' st =
     (case st of (global_weights, w) \<Rightarrow>
     (case device_loop T train_dataset mapping global_model local_epochs batch_size
             (arange devices)
             (([], [], [], []), w\<lparr>out := out w @ [RoundHeader (round' + 1)]\<rparr>) of
        Inl e \<Rightarrow> Inl e
      | Inr ((local_weights, local_losses, val_losses, val_accuracies), w1) \<Rightarrow>
     (case average_weights local_weights (heap w1) of (Inl e, _) \<Rightarrow> Inl e
      | (Inr global_weights', h2) \<Rightarrow>
     (case load_state_dict global_model global_weights' h2 of Inl e \<Rightarrow> Inl e | Inr h3 \<Rightarrow>
     (case mean local_losses of Inl e \<Rightarrow> Inl e | Inr mean_train_loss \<Rightarrow>
     (case mean val_losses of Inl e \<Rightarrow> Inl e | Inr mean_val_loss \<Rightarrow>
     (case mean val_accuracies of Inl e \<Rightarrow> Inl e | Inr mean_val_accuracy \<Rightarrow>
        Inr (global_weights',
             \<lparr>heap = h3, env = env w1,
              out = out w1 @ [MeanTrainLoss mean_train_loss, MeanValLoss mean_val_loss,
                              MeanValAccuracy mean_val_accuracy]\<rparr>))))))))"

fun rounds_loop ::
  "('x, 'e) torch \<Rightarrow> 'x dataset \<Rightarrow> index_mapping \<Rightarrow> nat \<Rightarrow> nat \<Rightarrow> int \<Rightarrow> int \<Rightarrow> nat list
     \<Rightarrow> nat \<times> 'e world \<Rightarrow> error + nat \<times> 'e world" where
  "rounds_loop T train_dataset mapping global_model local_epochs batch_size devices [] st = Inr st"
| "rounds_loop T train_dataset mapping global_model local_epochs batch_size devices (round' # rest) st =
     (case round_body T train_dataset mapping global_model local_epochs batch_size devices round' st of
        Inl e \<Rightarrow> Inl e
      | Inr st' \<Rightarrow>
          rounds_loop T train_dataset mapping global_model local_epochs batch_size devices rest st')"

text \<open>
  The main program, with its constants as arguments: the partition is built once, the
  rounds are run, and the final model is evaluated on the test set. \<open>g0\<close> and
  \<open>seed_state\<close> are numpy's generator as in the partitioner; \<open>w0\<close> is the world after
  \<^verbatim>\<open>global_model = CNNMnist()\<close>, whose parameters are at \<open>global_model\<close>.
  \<^verbatim>\<open>global_model.state_dict()\<close> is a new dictionary with the module's own tensors.
\<close>

definition state_dict_of :: "nat \<Rightarrow> store \<Rightarrow> error + nat \<times> store" where
  "state_dict_of module_ref s =
     (case dict_at s module_ref of
        Inl e \<Rightarrow> Inl e
      | Inr own \<Rightarrow> Inr (length (dicts s), s\<lparr>dicts := dicts s @ [own]\<rparr>))"

definition orchestrate ::
  "('x, 'e) torch \<Rightarrow> (int \<Rightarrow> rng) \<Rightarrow> rng \<Rightarrow> 'x dataset \<Rightarrow> 'x dataset \<Rightarrow> nat \<Rightarrow> 'e world
     \<Rightarrow> int \<Rightarrow> int \<Rightarrow> int \<Rightarrow> bool \<Rightarrow> rat \<Rightarrow> int \<Rightarrow> nat \<Rightarrow> int
     \<Rightarrow> error + (rat \<times> rat) \<times> 'e world" where
  "orchestrate T seed_state g0 train_dataset test_dataset global_model w0
       devices areas random_seed shuffling data_fraction global_rounds local_epochs batch_size =
     (case dataset_to_nodes_partitioning seed_state train_dataset g0 devices areas random_seed
             shuffling data_fraction of
        Inl e \<Rightarrow> Inl e
      | Inr (mapping, _) \<Rightarrow>
     (case state_dict_of global_model (heap w0) of Inl e \<Rightarrow> Inl e
      | Inr (global_weights, h0) \<Rightarrow>
     (case rounds_loop T train_dataset mapping global_model local_epochs batch_size devices
             (arange global_rounds) (global_weights, w0\<lparr>heap := h0\<rparr>) of
        Inl e \<Rightarrow> Inl e
      | Inr (_, w) \<Rightarrow>
     (case state_dict_of global_model (heap w) of Inl e \<Rightarrow> Inl e | Inr (final_weights, h) \<Rightarrow>
     (case evaluate (forward T h) final_weights (items test_dataset) 64 of Inl e \<Rightarrow> Inl e
      | Inr (test_acc, test_loss) \<Rightarrow>
          Inr ((test_acc, test_loss),
               w\<lparr>heap := h, out := out w @ [TestingHeader, TestAccuracy test_acc]\<rparr>))))))"

text \<open>The program as it is run: the constants of lines 160 to 167.\<close>

definition main ::
  "('x, 'e) torch \<Rightarrow> (int \<Rightarrow> rng) \<Rightarrow> rng \<Rightarrow> 'x dataset \<Rightarrow> 'x dataset \<Rightarrow> nat \<Rightarrow> 'e world
     \<Rightarrow> error + (rat \<times> rat) \<times> 'e world" where
  "main T seed_state g0 train_dataset test_dataset global_model w0 =
     orchestrate T seed_state g0 train_dataset test_dataset global_model w0
       20 4 1 True (2 / 10) 40 2 64"

section \<open>Notions used to state invariants\<close>

text \<open>
  \<open>keeps n d s s'\<close>: the store \<open>s'\<close> has every object of \<open>s\<close>, and the first \<open>n\<close> tensors
  and the first \<open>d\<close> dictionaries hold the same values in both. \<open>fresh_values n w s\<close>: the
  dictionary at \<open>w\<close> refers only to tensors at positions from \<open>n\<close> on.
\<close>

definition keeps :: "nat \<Rightarrow> nat \<Rightarrow> store \<Rightarrow> store \<Rightarrow> bool" where
  "keeps n d s s' \<longleftrightarrow>
     take n (tensors s') = take n (tensors s) \<and> take d (dicts s') = take d (dicts s) \<and>
     length (tensors s) \<le> length (tensors s') \<and> length (dicts s) \<le> length (dicts s')"

definition fresh_values :: "nat \<Rightarrow> nat \<Rightarrow> store \<Rightarrow> bool" where
  "fresh_values n w s \<longleftrightarrow> (w < length (dicts s) \<longrightarrow> (\<forall>a\<in>snd ` set (dicts s ! w). n \<le> a))"

section \<open>Properties of the rounding\<close>

lemma round_half_even_nonneg: "0 \<le> q \<Longrightarrow> 0 \<le> round_half_even q"
  by (auto simp: round_half_even_def Let_def)

lemma round_half_even_of_int: "round_half_even (of_int k) = k"
  by (simp add: round_half_even_def Let_def)

lemma round_half_even_le:
  assumes "q \<le> of_int k"
  shows "round_half_even q \<le> k"
proof -
  have f: "\<lfloor>q\<rfloor> \<le> k" using assms by (simp add: floor_le_iff)
  show ?thesis
  proof (cases "\<lfloor>q\<rfloor> = k")
    case True
    then have "q - of_int \<lfloor>q\<rfloor> \<le> 0" using assms by simp
    then show ?thesis using True by (simp add: round_half_even_def Let_def)
  next
    case False
    then have "\<lfloor>q\<rfloor> + 1 \<le> k" using f by simp
    then show ?thesis using f by (auto simp: round_half_even_def Let_def)
  qed
qed

lemma round_to_format_zero: "round_to_format p emin 0 = 0"
  by (simp add: round_to_format_def)

lemma round_to_format_nonneg: "0 \<le> x \<Longrightarrow> 0 \<le> round_to_format p emin x"
  by (auto simp: round_to_format_def Let_def sgn_if
           intro!: mult_nonneg_nonneg round_half_even_nonneg)

lemma float_mul_zero: "float_mul 0 y = 0"
  by (simp add: float_mul_def round_to_double_def round_to_format_zero)

lemma float_mul_nonneg: "0 \<le> x \<Longrightarrow> 0 \<le> y \<Longrightarrow> 0 \<le> float_mul x y"
  by (simp add: float_mul_def round_to_double_def round_to_format_nonneg)

section \<open>Properties of the partitioner\<close>

subsection \<open>Splitting, shuffling and sampling\<close>

lemma length_split_at_sizes: "length (split_at_sizes xs ns) = length ns"
  by (induction ns arbitrary: xs) auto

lemma concat_split_at_sizes:
  "length xs \<le> sum_list ns \<Longrightarrow> concat (split_at_sizes xs ns) = xs"
  by (induction ns arbitrary: xs) auto

lemma nth_split_at_sizes_length:
  "i < length ns \<Longrightarrow> sum_list ns \<le> length xs \<Longrightarrow> length (split_at_sizes xs ns ! i) = ns ! i"
proof (induction ns arbitrary: xs i)
  case Nil
  then show ?case by simp
next
  case (Cons n ns)
  then show ?case by (cases i) auto
qed

lemma sum_list_section_sizes:
  "0 < k \<Longrightarrow> sum_list (section_sizes N k) = N"
proof -
  assume k: "0 < k"
  have "N mod k \<le> k" using k by (simp add: less_imp_le)
  then have "N mod k * (N div k + 1) + (k - N mod k) * (N div k) = k * (N div k) + N mod k"
    by (simp add: algebra_simps diff_mult_distrib) 
  then show ?thesis
    by (simp add: section_sizes_def Let_def sum_list_replicate)
qed

lemma length_section_sizes: "0 < k \<Longrightarrow> length (section_sizes N k) = k"
  by (simp add: section_sizes_def Let_def less_imp_le)

lemma nth_section_sizes:
  "i < k \<Longrightarrow> section_sizes N k ! i = N div k + (if i < N mod k then 1 else 0)"
  by (auto simp: section_sizes_def Let_def nth_append)

lemma array_split_Inr:
  assumes "array_split ary n = Inr cs"
  shows "0 < n" and "length cs = nat n" and "concat cs = ary"
    and "\<And>i. i < nat n \<Longrightarrow>
           length (cs ! i) = length ary div nat n + (if i < length ary mod nat n then 1 else 0)"
proof -
  show n: "0 < n" using assms by (auto simp: array_split_def split: if_splits)
  then have cs: "cs = split_at_sizes ary (section_sizes (length ary) (nat n))"
    using assms by (auto simp: array_split_def)
  show "length cs = nat n" using n by (simp add: cs length_split_at_sizes length_section_sizes)
  show "concat cs = ary" using n by (simp add: cs concat_split_at_sizes sum_list_section_sizes)
  show "length (cs ! i) = length ary div nat n + (if i < length ary mod nat n then 1 else 0)"
    if "i < nat n" for i
    using that n
    by (simp add: cs nth_split_at_sizes_length length_section_sizes sum_list_section_sizes
        nth_section_sizes)
qed

lemma array_split_ok: "0 < n \<Longrightarrow> \<exists>cs. array_split ary n = Inr cs"
  by (simp add: array_split_def)

lemma array_split_fail: "n \<le> 0 \<Longrightarrow> array_split ary n = Inl ValueError"
  by (simp add: array_split_def)

lemma concat_nth_subset: "i < length cs \<Longrightarrow> set (cs ! i) \<subseteq> set (concat cs)"
  using nth_mem by fastforce

lemma distinct_concat_nth_disjoint:
  "distinct (concat cs) \<Longrightarrow> i < length cs \<Longrightarrow> j < length cs \<Longrightarrow> i \<noteq> j
     \<Longrightarrow> set (cs ! i) \<inter> set (cs ! j) = {}"
proof (induction cs arbitrary: i j)
  case Nil
  then show ?case by simp
next
  case (Cons c cs)
  show ?case
  proof (cases i)
    case 0
    then obtain j' where j: "j = Suc j'" using Cons.prems by (cases j) auto
    then have "set (cs ! j') \<subseteq> set (concat cs)" using Cons.prems by (intro concat_nth_subset) simp
    then show ?thesis using 0 j Cons.prems by auto
  next
    case (Suc i')
    show ?thesis
    proof (cases j)
      case 0
      have "set (cs ! i') \<subseteq> set (concat cs)" using Suc Cons.prems by (intro concat_nth_subset) simp
      then show ?thesis using 0 Suc Cons.prems by auto
    next
      case (Suc j')
      then show ?thesis using \<open>i = Suc i'\<close> Cons.prems Cons.IH[of i' j'] by auto
    qed
  qed
qed

lemma shuffle_down_mset:
  "i < length x \<Longrightarrow> mset (fst (shuffle_down i x g)) = mset x"
proof (induction i arbitrary: x g)
  case 0
  then show ?case by simp
next
  case (Suc i)
  have j: "g 0 mod Suc (Suc i) < length x" using Suc.prems
    by (meson Suc_leI less_le_trans mod_less_divisor zero_less_Suc)
  have "mset (x[Suc i := x ! (g 0 mod Suc (Suc i)), g 0 mod Suc (Suc i) := x ! Suc i]) = mset x"
    using Suc.prems j by (simp add: mset_swap)
  then show ?case using Suc.prems Suc.IH[of "x[Suc i := x ! (g 0 mod Suc (Suc i)), g 0 mod Suc (Suc i) := x ! Suc i]"]
    by (simp add: random_below_def Let_def)
qed

lemma np_random_shuffle_mset: "mset (fst (np_random_shuffle x g)) = mset x"
proof (cases x)
  case Nil
  then show ?thesis by (simp add: np_random_shuffle_def)
next
  case (Cons a as)
  then show ?thesis by (simp add: np_random_shuffle_def shuffle_down_mset)
qed

lemma draws_props:
  "draws k a g = (js, g') \<Longrightarrow> length js = k \<and> (0 < a \<longrightarrow> (\<forall>j\<in>set js. j < a))"
proof (induction k arbitrary: g js g')
  case 0
  then show ?case by simp
next
  case (Suc k)
  obtain js' g'' where d: "draws k a (g \<circ> Suc) = (js', g'')" by (cases "draws k a (g \<circ> Suc)")
  with Suc.prems have js: "js = (g 0 mod a) # js'" by (simp add: random_below_def)
  from Suc.IH[OF d] show ?case by (auto simp: js)
qed


lemma np_random_choice_Inr:
  assumes "np_random_choice a sz g = Inr (js, g')"
  shows "0 \<le> sz" and "int (length js) = sz" and "\<forall>j\<in>set js. j < a"
proof -
  from assms show sz: "0 \<le> sz" by (auto simp: np_random_choice_def split: if_splits)
  from assms have d: "draws (nat sz) a g = (js, g')" and a: "a = 0 \<longrightarrow> sz = 0"
    by (auto simp: np_random_choice_def split: if_splits)
  from draws_props[OF d] sz show "int (length js) = sz" by simp
  show "\<forall>j\<in>set js. j < a"
  proof (cases "a = 0")
    case True
    with a d show ?thesis by simp
  next
    case False
    with draws_props[OF d] show ?thesis by simp
  qed
qed

lemma node_loop_Inr:
  assumes "node_loop srn k f cls nodes (m, g) = Inr (m', g')"
  shows "(\<forall>d. d \<notin> set nodes \<longrightarrow> m' d = m d) \<and>
         (\<forall>d\<in>set nodes. \<exists>lst indexes.
             py_getitem srn (int d mod k) = Inr lst \<and>
             m' d = Some (map (\<lambda>j. lst ! j) indexes, cls) \<and>
             int (length indexes) = py_int (float_mul (of_nat (length lst)) f) \<and>
             (\<forall>j\<in>set indexes. j < length lst))"
  using assms
proof (induction nodes arbitrary: m g)
  case Nil
  then show ?case by simp
next
  case (Cons node nodes)
  from Cons.prems obtain lst where lst: "py_getitem srn (int node mod k) = Inr lst"
    by (auto split: sum.splits)
  from Cons.prems lst obtain indexes g1 where
    ch: "np_random_choice (length lst) (py_int (float_mul (of_nat (length lst)) f)) g = Inr (indexes, g1)"
    by (auto simp: Let_def split: sum.splits)
  from Cons.prems lst ch have
    rest: "node_loop srn k f cls nodes (m(node \<mapsto> (map (\<lambda>j. lst ! j) indexes, cls)), g1) = Inr (m', g')"
    by (auto simp: Let_def split: if_splits)
  note ih = Cons.IH[OF rest]
  note c = np_random_choice_Inr[OF ch]
  show ?case
  proof (intro conjI allI ballI impI)
    fix d assume "d \<notin> set (node # nodes)"
    then show "m' d = m d" using ih by auto
  next
    fix d assume d: "d \<in> set (node # nodes)"
    show "\<exists>lst indexes.
             py_getitem srn (int d mod k) = Inr lst \<and>
             m' d = Some (map (\<lambda>j. lst ! j) indexes, cls) \<and>
             int (length indexes) = py_int (float_mul (of_nat (length lst)) f) \<and>
             (\<forall>j\<in>set indexes. j < length lst)"
    proof (cases "d \<in> set nodes")
      case True
      then show ?thesis using ih by blast
    next
      case False
      then have dn: "d = node" using d by simp
      from False ih have "m' d = (m(node \<mapsto> (map (\<lambda>j. lst ! j) indexes, cls))) d" by blast
      then have "m' d = Some (map (\<lambda>j. lst ! j) indexes, cls)" by (simp add: dn)
      then show ?thesis using lst c dn by blast
    qed
  qed
qed

lemma area_loop_Inr:
  assumes "area_loop ds sh k f areas (m, g) = Inr (m', g')"
  shows "(\<forall>d. (\<forall>(nodes, cls)\<in>set areas. d \<notin> set nodes) \<longrightarrow> m' d = m d) \<and>
         (\<forall>d. (\<exists>(nodes, cls)\<in>set areas. d \<in> set nodes) \<longrightarrow>
            (\<exists>(nodes, cls)\<in>set areas. d \<in> set nodes \<and>
               (\<exists>perm srn lst indexes.
                  mset perm = mset (records_per_class ds cls) \<and>
                  (\<not> sh \<longrightarrow> perm = records_per_class ds cls) \<and>
                  array_split perm k = Inr srn \<and>
                  py_getitem srn (int d mod k) = Inr lst \<and>
                  m' d = Some (map (\<lambda>j. lst ! j) indexes, cls) \<and>
                  int (length indexes) = py_int (float_mul (of_nat (length lst)) f) \<and>
                  (\<forall>j\<in>set indexes. j < length lst))))"
  using assms
proof (induction areas arbitrary: m g)
  case Nil
  then show ?case by simp
next
  case (Cons a areas)
  obtain nodes cls where a: "a = (nodes, cls)" by (cases a)
  define perm where "perm = (if sh then fst (np_random_shuffle (records_per_class ds cls) g)
                             else records_per_class ds cls)"
  define g1 where "g1 = (if sh then snd (np_random_shuffle (records_per_class ds cls) g) else g)"
  have pg: "(if sh then np_random_shuffle (records_per_class ds cls) g
             else (records_per_class ds cls, g)) = (perm, g1)"
    by (simp add: perm_def g1_def)
  have perm: "mset perm = mset (records_per_class ds cls)" "\<not> sh \<longrightarrow> perm = records_per_class ds cls"
    by (simp_all add: perm_def np_random_shuffle_mset)
  from Cons.prems obtain srn where srn: "array_split perm k = Inr srn"
    by (auto simp: a pg Let_def split: sum.splits)
  from Cons.prems srn obtain m1 g2 where
    nl: "node_loop srn k f cls nodes (m, g1) = Inr (m1, g2)"
    by (auto simp: a pg Let_def split: sum.splits)
  from Cons.prems srn nl have rest: "area_loop ds sh k f areas (m1, g2) = Inr (m', g')"
    by (auto simp: a pg Let_def)
  note ih = Cons.IH[OF rest]
  note nd = node_loop_Inr[OF nl]
  show ?case
  proof (intro conjI allI impI)
    fix d assume "\<forall>(nodes, cls)\<in>set (a # areas). d \<notin> set nodes"
    then have "d \<notin> set nodes" "\<forall>(nodes, cls)\<in>set areas. d \<notin> set nodes" by (auto simp: a)
    then show "m' d = m d" using ih nd by auto
  next
    fix d assume d: "\<exists>(nodes, cls)\<in>set (a # areas). d \<in> set nodes"
    show "\<exists>(nodes, cls)\<in>set (a # areas). d \<in> set nodes \<and>
               (\<exists>perm srn lst indexes.
                  mset perm = mset (records_per_class ds cls) \<and>
                  (\<not> sh \<longrightarrow> perm = records_per_class ds cls) \<and>
                  array_split perm k = Inr srn \<and>
                  py_getitem srn (int d mod k) = Inr lst \<and>
                  m' d = Some (map (\<lambda>j. lst ! j) indexes, cls) \<and>
                  int (length indexes) = py_int (float_mul (of_nat (length lst)) f) \<and>
                  (\<forall>j\<in>set indexes. j < length lst))"
    proof (cases "\<exists>(nodes, cls)\<in>set areas. d \<in> set nodes")
      case True
      with ih show ?thesis by (simp add: Bex_def) blast
    next
      case False
      then have same: "m' d = m1 d" using ih by blast
      from False d have dn: "d \<in> set nodes" by (auto simp: a)
      with nd obtain lst indexes where
        "py_getitem srn (int d mod k) = Inr lst"
        "m1 d = Some (map (\<lambda>j. lst ! j) indexes, cls)"
        "int (length indexes) = py_int (float_mul (of_nat (length lst)) f)"
        "\<forall>j\<in>set indexes. j < length lst" by blast
      with perm srn same dn show ?thesis by (simp add: a) blast
    qed
  qed
qed


lemma area_loop_Cons_pos:
  "area_loop ds sh k f (x # rest) st = Inr r \<Longrightarrow> 0 < k"
  by (cases x; cases st) (auto simp: Let_def array_split_def split: sum.splits if_splits prod.splits)

lemma py_getitem_Inr_nth:
  "0 \<le> i \<Longrightarrow> py_getitem xs i = Inr x \<Longrightarrow> x = xs ! nat i \<and> nat i < length xs"
  by (auto simp: py_getitem_def Let_def split: if_splits)

lemma py_int_nonneg: "0 \<le> x \<Longrightarrow> py_int x = \<lfloor>x\<rfloor>"
  by (simp add: py_int_def)

lemma py_int_div_pos:
  assumes "0 < a" "0 < py_int (of_int n / of_int a)"
  shows "a \<le> n" and "py_int (of_int n / of_int a) = n div a"
proof -
  have nn: "0 \<le> n"
  proof (rule ccontr)
    assume "\<not> 0 \<le> n"
    then have "(of_int n / of_int a :: rat) < 0" using assms(1) by (simp add: divide_neg_pos)
    then have "py_int (of_int n / of_int a) \<le> 0"
      by (simp add: py_int_def ceiling_le_zero less_imp_le)
    with assms(2) show False by simp
  qed
  then have "0 \<le> (of_int n / of_int a :: rat)" using assms(1) by simp
  then show eq: "py_int (of_int n / of_int a) = n div a"
    by (simp add: py_int_def floor_divide_of_int_eq)
  show "a \<le> n"
  proof (rule ccontr)
    assume "\<not> a \<le> n"
    then have "n div a = 0" using nn by (simp add: div_pos_pos_trivial)
    with eq assms(2) show False by simp
  qed
qed

lemma partition_Inr:
  assumes "dataset_to_nodes_partitioning ss ds g0 n a seed sh f = Inr (m, g')"
  shows "0 \<le> seed \<and> seed < 2 ^ 32 \<and> 0 < a \<and>
         (\<exists>sn sc. array_split (arange n) a = Inr sn \<and>
                  array_split (arange (int (length (classes ds)))) a = Inr sc \<and>
                  area_loop ds sh (py_int (of_int n / of_int a)) f (zip sn sc)
                     (Map.empty, ss seed) = Inr (m, g'))"
  using assms
  by (auto simp: dataset_to_nodes_partitioning_def np_random_seed_def Let_def array_split_def
      split: if_splits sum.splits)

lemma partition_Inr_pos:
  assumes "dataset_to_nodes_partitioning ss ds g0 n a seed sh f = Inr (m, g')"
  shows "0 < a" and "0 < py_int (of_int n / of_int a)" and "a \<le> n"
    and "py_int (of_int n / of_int a) = n div a"
proof -
  from partition_Inr[OF assms] obtain sn sc where
    a: "0 < a" and sn: "array_split (arange n) a = Inr sn"
    and sc: "array_split (arange (int (length (classes ds)))) a = Inr sc"
    and al: "area_loop ds sh (py_int (of_int n / of_int a)) f (zip sn sc) (Map.empty, ss seed) = Inr (m, g')"
    by blast
  have "length (zip sn sc) = nat a" using array_split_Inr(2)[OF sn] array_split_Inr(2)[OF sc] by simp
  then obtain x rest where "zip sn sc = x # rest" using a by (cases "zip sn sc") auto
  with al show k: "0 < py_int (of_int n / of_int a)" using area_loop_Cons_pos by metis
  show "0 < a" by fact
  show "a \<le> n" using py_int_div_pos(1)[OF a k] .
  show "py_int (of_int n / of_int a) = n div a" using py_int_div_pos(2)[OF a k] .
qed

lemma set_records_per_class:
  "set (records_per_class ds cls) = {i. i < length (items ds) \<and> snd (items ds ! i) \<in> set cls}"
  by (auto simp: records_per_class_def in_set_enumerate_eq image_iff split: prod.splits)
     (metis prod.collapse)+

lemma distinct_records_per_class: "distinct (records_per_class ds cls)"
  by (simp add: records_per_class_def distinct_map_filter)

lemma partition_entry:
  assumes ok: "dataset_to_nodes_partitioning ss ds g0 n a seed sh f = Inr (m, g')"
    and md: "m d = Some (idxs, allowed)"
  shows "\<exists>sn sc i perm srn indexes.
           array_split (arange n) a = Inr sn \<and>
           array_split (arange (int (length (classes ds)))) a = Inr sc \<and>
           i < nat a \<and> d \<in> set (sn ! i) \<and> allowed = sc ! i \<and>
           mset perm = mset (records_per_class ds allowed) \<and>
           (\<not> sh \<longrightarrow> perm = records_per_class ds allowed) \<and>
           array_split perm (n div a) = Inr srn \<and>
           d mod nat (n div a) < length srn \<and>
           idxs = map (\<lambda>j. srn ! (d mod nat (n div a)) ! j) indexes \<and>
           int (length indexes) = py_int (float_mul (of_nat (length (srn ! (d mod nat (n div a))))) f) \<and>
           (\<forall>j\<in>set indexes. j < length (srn ! (d mod nat (n div a))))"
proof -
  note pos = partition_Inr_pos[OF ok]
  from partition_Inr[OF ok] obtain sn sc where
    sn: "array_split (arange n) a = Inr sn"
    and sc: "array_split (arange (int (length (classes ds)))) a = Inr sc"
    and al: "area_loop ds sh (n div a) f (zip sn sc) (Map.empty, ss seed) = Inr (m, g')"
    by (auto simp: pos(4))
  note A = area_loop_Inr[OF al]
  have "\<exists>(nodes, cls)\<in>set (zip sn sc). d \<in> set nodes"
  proof (rule ccontr)
    assume "\<not> ?thesis"
    then have "\<forall>(nodes, cls)\<in>set (zip sn sc). d \<notin> set nodes" by auto
    with A have "m d = Map.empty d" by blast
    with md show False by simp
  qed
  with A obtain nodes cls perm srn lst indexes where
    z: "(nodes, cls) \<in> set (zip sn sc)" and dn: "d \<in> set nodes"
    and perm: "mset perm = mset (records_per_class ds cls)" "\<not> sh \<longrightarrow> perm = records_per_class ds cls"
    and srn: "array_split perm (n div a) = Inr srn"
    and lst: "py_getitem srn (int d mod (n div a)) = Inr lst"
    and e: "m d = Some (map (\<lambda>j. lst ! j) indexes, cls)"
    and len: "int (length indexes) = py_int (float_mul (of_nat (length lst)) f)"
    and bd: "\<forall>j\<in>set indexes. j < length lst"
    by (simp add: Bex_def) blast
  from z obtain i where i: "i < length sn" "i < length sc" "nodes = sn ! i" "cls = sc ! i"
    by (auto simp: in_set_zip)
  have ia: "i < nat a" using i(1) array_split_Inr(2)[OF sn] by simp
  have k: "0 < n div a" using pos(2,4) by simp
  have "0 \<le> int d mod (n div a)" using k by simp
  from py_getitem_Inr_nth[OF this lst]
  have l1: "lst = srn ! nat (int d mod (n div a))" "nat (int d mod (n div a)) < length srn" by simp_all
  have "nat (int d mod (n div a)) = d mod nat (n div a)"
    using k by (simp add: nat_mod_distrib)
  with l1 have l2: "lst = srn ! (d mod nat (n div a))" "d mod nat (n div a) < length srn" by simp_all
  from e md have idxs: "idxs = map (\<lambda>j. lst ! j) indexes" and al: "allowed = cls" by simp_all
  show ?thesis
    using sn sc ia dn i(3,4) perm srn l2 idxs al len bd by blast
qed

subsection \<open>What a successful call returns, and when a call succeeds\<close>

lemma partition_area_entry:
  assumes ok: "dataset_to_nodes_partitioning ss ds g0 n a seed sh f = Inr (m, g')"
    and sn: "array_split (arange n) a = Inr sn"
    and sc: "array_split (arange (int (length (classes ds)))) a = Inr sc"
    and i: "i < nat a" and d: "d \<in> set (sn ! i)"
  shows "\<exists>idxs. m d = Some (idxs, sc ! i)"
proof -
  note pos = partition_Inr_pos[OF ok]
  from partition_Inr[OF ok] sn sc have
    al: "area_loop ds sh (n div a) f (zip sn sc) (Map.empty, ss seed) = Inr (m, g')"
    by (auto simp: pos(4))
  have lsn: "length sn = nat a" and lsc: "length sc = nat a"
    using array_split_Inr(2)[OF sn] array_split_Inr(2)[OF sc] by simp_all
  have "(sn ! i, sc ! i) \<in> set (zip sn sc)"
    using i lsn lsc by (auto simp: in_set_zip)
  with d have "\<exists>(nodes, cls)\<in>set (zip sn sc). d \<in> set nodes" by blast
  with area_loop_Inr[OF al] obtain nodes cls idxs where
    z: "(nodes, cls) \<in> set (zip sn sc)" and dn: "d \<in> set nodes" and e: "m d = Some (idxs, cls)"
    by (simp add: Bex_def) blast
  from z obtain i' where i': "i' < length sn" "nodes = sn ! i'" "cls = sc ! i'"
    by (auto simp: in_set_zip)
  have "distinct (concat sn)" using array_split_Inr(3)[OF sn] by (simp add: arange_def)
  then have "i' = i"
    using distinct_concat_nth_disjoint[of sn i' i] i'(1,2) i lsn dn d by auto
  with e i'(3) show ?thesis by simp
qed

lemma partition_succeeds_node_loop:
  assumes "0 < k" "length srn = nat k" "0 \<le> f"
  shows "\<exists>r. node_loop srn k f cls nodes st = Inr r"
proof (induction nodes arbitrary: st)
  case Nil
  then show ?case by (cases st) simp
next
  case (Cons node nodes)
  obtain m g where st: "st = (m, g)" by (cases st)
  have r: "0 \<le> int node mod k" "int node mod k < int (length srn)" using assms(1,2) by simp_all
  then have gi: "py_getitem srn (int node mod k) = Inr (srn ! nat (int node mod k))"
    by (simp add: py_getitem_def)
  define lst where "lst = srn ! nat (int node mod k)"
  let ?b = "float_mul (of_nat (length lst)) f"
  have b: "0 \<le> ?b" using assms(3) by (simp add: float_mul_nonneg)
  then have pb: "py_int ?b = \<lfloor>?b\<rfloor>" by (rule py_int_nonneg)
  have b0: "0 \<le> \<lfloor>?b\<rfloor>" using b by simp
  have e0: "length lst = 0 \<longrightarrow> \<lfloor>?b\<rfloor> = 0" by (simp add: float_mul_zero)
  obtain js g1 where dr: "draws (nat \<lfloor>?b\<rfloor>) (length lst) g = (js, g1)"
    by (cases "draws (nat \<lfloor>?b\<rfloor>) (length lst) g")
  have ch: "np_random_choice (length lst) (py_int ?b) g = Inr (js, g1)"
    using b0 e0 dr by (auto simp: np_random_choice_def pb)
  from np_random_choice_Inr(3)[OF ch] have "list_all (\<lambda>j. j < length lst) js"
    by (simp add: list_all_iff)
  with gi ch Cons.IH show ?case
    by (simp add: st lst_def[symmetric])
qed

lemma partition_succeeds_area_loop:
  assumes "0 < k" "0 \<le> f"
  shows "\<exists>r. area_loop ds sh k f areas st = Inr r"
proof (induction areas arbitrary: st)
  case Nil
  then show ?case by (cases st) simp
next
  case (Cons x areas)
  obtain m g where st: "st = (m, g)" by (cases st)
  obtain nodes cls where x: "x = (nodes, cls)" by (cases x)
  obtain perm g1 where pg: "(if sh then np_random_shuffle (records_per_class ds cls) g
             else (records_per_class ds cls, g)) = (perm, g1)"
    by (cases "(if sh then np_random_shuffle (records_per_class ds cls) g
             else (records_per_class ds cls, g))")
  obtain srn where srn: "array_split perm k = Inr srn" using array_split_ok[OF assms(1)] by blast
  have "length srn = nat k" using array_split_Inr(2)[OF srn] .
  from partition_succeeds_node_loop[OF assms(1) this assms(2)]
  obtain r where "node_loop srn k f cls nodes (m, g1) = Inr r" by blast
  with srn pg Cons.IH[of r] show ?case by (simp add: st x Let_def)
qed

lemma partition_succeeds:
  assumes "0 \<le> seed" "seed < 2 ^ 32" "0 < a" "a \<le> n" "0 \<le> f"
  shows "\<exists>m g'. dataset_to_nodes_partitioning ss ds g0 n a seed sh f = Inr (m, g')"
proof -
  have "(0::rat) \<le> of_int n / of_int a" using assms(3,4) by simp
  then have "py_int (of_int n / of_int a) = n div a"
    by (simp add: py_int_def floor_divide_of_int_eq)
  moreover have "0 < n div a" using assms(3,4) by (simp add: pos_imp_zdiv_pos_iff)
  ultimately have k: "0 < py_int (of_int n / of_int a)" by simp
  obtain sn where sn: "array_split (arange n) a = Inr sn" using array_split_ok[OF assms(3)] by blast
  obtain sc where sc: "array_split (arange (int (length (classes ds)))) a = Inr sc"
    using array_split_ok[OF assms(3)] by blast
  from partition_succeeds_area_loop[OF k assms(5)] obtain r where
    "area_loop ds sh (py_int (of_int n / of_int a)) f (zip sn sc) (Map.empty, ss seed) = Inr r"
    by blast
  then show ?thesis using assms(1,2,3) sn sc
    by (cases r) (simp add: dataset_to_nodes_partitioning_def np_random_seed_def Let_def)
qed

lemma partition_dom:
  assumes ok: "dataset_to_nodes_partitioning ss ds g0 n a seed sh f = Inr (m, g')"
  shows "dom m = {0..<nat n}"
proof -
  note pos = partition_Inr_pos[OF ok]
  from partition_Inr[OF ok] obtain sn sc where
    sn: "array_split (arange n) a = Inr sn"
    and sc: "array_split (arange (int (length (classes ds)))) a = Inr sc"
    and al: "area_loop ds sh (n div a) f (zip sn sc) (Map.empty, ss seed) = Inr (m, g')"
    by (auto simp: pos(4))
  have lsn: "length sn = nat a" and lsc: "length sc = nat a"
    using array_split_Inr(2)[OF sn] array_split_Inr(2)[OF sc] by simp_all
  have cs: "set (concat sn) = {0..<nat n}" using array_split_Inr(3)[OF sn] by (simp add: arange_def)
  show ?thesis
  proof (intro set_eqI iffI)
    fix d assume "d \<in> dom m"
    then obtain idxs allowed where "m d = Some (idxs, allowed)" by auto
    from partition_entry[OF ok this] sn obtain i where "i < nat a" "d \<in> set (sn ! i)" by auto
    then have "d \<in> set (concat sn)" using lsn concat_nth_subset[of i sn] by auto
    with cs show "d \<in> {0..<nat n}" by simp
  next
    fix d assume "d \<in> {0..<nat n}"
    with cs have "d \<in> set (concat sn)" by simp
    then obtain c where "c \<in> set sn" "d \<in> set c" by auto
    then obtain i where "i < length sn" "d \<in> set (sn ! i)" by (metis in_set_conv_nth)
    with partition_area_entry[OF ok sn sc, of i d] lsn show "d \<in> dom m" by auto
  qed
qed

section \<open>Properties of the aggregator\<close>

subsection \<open>What a call leaves untouched\<close>

lemma keeps_refl: "keeps n d s s"
  by (simp add: keeps_def)

lemma keeps_trans: "keeps n d s s' \<Longrightarrow> keeps n d s' s'' \<Longrightarrow> keeps n d s s''"
  by (auto simp: keeps_def)

lemma dict_getitem_in: "dict_getitem d key = Inr a \<Longrightarrow> (key, a) \<in> set d"
  by (auto simp: dict_getitem_def split: option.splits dest: map_of_SomeD)

lemma update_values_ge:
  "n \<le> v \<Longrightarrow> \<forall>x\<in>set d. n \<le> snd x \<Longrightarrow> \<forall>x\<in>set (AList.update k v d). n \<le> snd x"
  by (induction d) auto

lemma accumulate_keeps:
  assumes "d0 \<le> w" "fresh_values n0 w s" "accumulate key w ms s = (r, s')"
  shows "keeps n0 d0 s s' \<and> fresh_values n0 w s'"
  using assms
proof (induction ms arbitrary: s)
  case Nil
  then show ?case by (simp add: keeps_refl)
next
  case (Cons m ms)
  show ?case
  proof (cases "\<exists>wd a md b ta tb t'. dict_at s w = Inr wd \<and> dict_getitem wd key = Inr a \<and>
        dict_at s m = Inr md \<and> dict_getitem md key = Inr b \<and> tensor_at s a = Inr ta \<and>
        tensor_at s b = Inr tb \<and> tensor_iadd ta tb = Inr t'")
    case False
    then have "s' = s" using Cons.prems(3)
      by (auto split: sum.splits)
    then show ?thesis using Cons.prems(2) by (simp add: keeps_refl)
  next
    case True
    then obtain wd a md b ta tb t' where
      wd: "dict_at s w = Inr wd" and a: "dict_getitem wd key = Inr a"
      and md: "dict_at s m = Inr md" and b: "dict_getitem md key = Inr b"
      and ta: "tensor_at s a = Inr ta" and tb: "tensor_at s b = Inr tb"
      and t': "tensor_iadd ta tb = Inr t'" by blast
    let ?s1 = "s\<lparr>tensors := (tensors s)[a := t'], dicts := (dicts s)[w := AList.update key a wd]\<rparr>"
    from wd have w: "w < length (dicts s)" "wd = dicts s ! w"
      by (auto simp: dict_at_def split: if_splits)
    from dict_getitem_in[OF a] have "a \<in> snd ` set (dicts s ! w)" using w(2) by force
    with Cons.prems(2) w(1) have na: "n0 \<le> a" by (auto simp: fresh_values_def)
    have k1: "keeps n0 d0 s ?s1" using na Cons.prems(1) by (simp add: keeps_def)
    have f1: "fresh_values n0 w ?s1"
      using Cons.prems(2) w update_values_ge[OF na, of wd key]
      by (simp add: fresh_values_def)
    from Cons.prems(3) wd a md b ta tb t' have "accumulate key w ms ?s1 = (r, s')" by simp
    from Cons.IH[OF Cons.prems(1) f1 this] k1 show ?thesis by (blast intro: keeps_trans)
  qed
qed

lemma average_keys_keeps:
  assumes "d0 \<le> w" "fresh_values n0 w s" "n0 \<le> length (tensors s)"
    "average_keys keys w models s = (r, s')"
  shows "keeps n0 d0 s s'"
  using assms
proof (induction keys arbitrary: s)
  case Nil
  then show ?case by (simp add: keeps_refl)
next
  case (Cons key keys)
  obtain r1 s1 where acc: "accumulate key w (tl models) s = (r1, s1)"
    by (cases "accumulate key w (tl models) s")
  from accumulate_keeps[OF Cons.prems(1,2) acc] have k1: "keeps n0 d0 s s1"
    and f1: "fresh_values n0 w s1" by simp_all
  have n1: "n0 \<le> length (tensors s1)" using k1 Cons.prems(3) by (simp add: keeps_def)
  show ?case
  proof (cases "\<exists>u wd a t. r1 = Inr u \<and> dict_at s1 w = Inr wd \<and> dict_getitem wd key = Inr a \<and>
        tensor_at s1 a = Inr t")
    case False
    then have "s' = s1" using Cons.prems(4) acc by (auto split: sum.splits)
    with k1 show ?thesis by simp
  next
    case True
    then obtain u wd a t where r1: "r1 = Inr u" and wd: "dict_at s1 w = Inr wd"
      and a: "dict_getitem wd key = Inr a" and t: "tensor_at s1 a = Inr t" by blast
    let ?s2 = "s1\<lparr>tensors := tensors s1 @ [torch_div t (length models)],
                 dicts := (dicts s1)[w := AList.update key (length (tensors s1)) wd]\<rparr>"
    from wd have w: "w < length (dicts s1)" "wd = dicts s1 ! w"
      by (auto simp: dict_at_def split: if_splits)
    have k2: "keeps n0 d0 s1 ?s2" using n1 Cons.prems(1) by (simp add: keeps_def)
    have f2: "fresh_values n0 w ?s2"
      using f1 w update_values_ge[OF n1, of wd key]
      by (simp add: fresh_values_def)
    have n2: "n0 \<le> length (tensors ?s2)" using n1 by simp
    from Cons.prems(4) acc r1 wd a t have "average_keys keys w models ?s2 = (r, s')" by simp
    from Cons.IH[OF Cons.prems(1) f2 n2 this] k1 k2 show ?thesis by (blast intro: keeps_trans)
  qed
qed

lemma deepcopy_items_keeps:
  assumes "n0 \<le> length (tensors s)" "\<forall>a\<in>snd ` set memo. n0 \<le> a"
    "deepcopy_items kvs memo s = (r, s')"
  shows "keeps n0 d0 s s' \<and> dicts s' = dicts s \<and>
         (\<forall>kvs' memo'. r = Inr (kvs', memo') \<longrightarrow> (\<forall>a\<in>snd ` set kvs'. n0 \<le> a))"
  using assms
proof (induction kvs arbitrary: memo s r s')
  case Nil
  then show ?case by (auto simp: keeps_refl)
next
  case (Cons kv kvs)
  obtain key a where kv: "kv = (key, a)" by (cases kv)
  show ?case
  proof (cases "map_of memo a")
    case (Some a')
    then have a': "n0 \<le> a'" using Cons.prems(2) by (force dest: map_of_SomeD)
    obtain r1 s1 where rec: "deepcopy_items kvs memo s = (r1, s1)"
      by (cases "deepcopy_items kvs memo s")
    note ih = Cons.IH[OF Cons.prems(1,2) rec]
    from Cons.prems(3) rec Some have s': "s' = s1"
      by (auto simp: kv split: sum.splits)
    from Cons.prems(3) rec Some have
      "\<forall>kvs' memo'. r = Inr (kvs', memo') \<longrightarrow> (\<exists>kvs1. r1 = Inr (kvs1, memo') \<and> kvs' = (key, a') # kvs1)"
      by (auto simp: kv split: sum.splits)
    with ih a' s' show ?thesis by fastforce
  next
    case None
    show ?thesis
    proof (cases "tensor_at s a")
      case (Inl e)
      with None Cons.prems(3) show ?thesis by (auto simp: kv keeps_refl)
    next
      case (Inr t)
      let ?s1 = "s\<lparr>tensors := tensors s @ [t]\<rparr>"
      let ?memo1 = "(a, length (tensors s)) # memo"
      obtain r1 s1 where rec: "deepcopy_items kvs ?memo1 ?s1 = (r1, s1)"
        by (cases "deepcopy_items kvs ?memo1 ?s1")
      have p1: "n0 \<le> length (tensors ?s1)" using Cons.prems(1) by simp
      have p2: "\<forall>a\<in>snd ` set ?memo1. n0 \<le> a" using Cons.prems(1,2) by auto
      note ih = Cons.IH[OF p1 p2 rec]
      have k0: "keeps n0 d0 s ?s1" using Cons.prems(1) by (simp add: keeps_def)
      from Cons.prems(3) rec None Inr have s': "s' = s1"
        by (auto simp: kv Let_def split: sum.splits)
      from Cons.prems(3) rec None Inr have
        "\<forall>kvs' memo'. r = Inr (kvs', memo') \<longrightarrow>
           (\<exists>kvs1. r1 = Inr (kvs1, memo') \<and> kvs' = (key, length (tensors s)) # kvs1)"
        by (auto simp: kv Let_def split: sum.splits)
      moreover have "keeps n0 d0 s s1" using ih k0 by (blast intro: keeps_trans)
      moreover have "dicts s1 = dicts s" using ih by simp
      ultimately show ?thesis using ih s' Cons.prems(1) by fastforce
    qed
  qed
qed

lemma average_weights_keeps:
  "keeps (length (tensors s)) (length (dicts s)) s (snd (average_weights models s))"
proof (cases models)
  case Nil
  then show ?thesis by (simp add: average_weights_def keeps_refl)
next
  case (Cons m0 ms)
  let ?n0 = "length (tensors s)" and ?d0 = "length (dicts s)"
  show ?thesis
  proof (cases "dict_at s m0")
    case (Inl e)
    then show ?thesis by (simp add: average_weights_def Cons deepcopy_dict_def keeps_refl)
  next
    case (Inr kvs)
    obtain r1 s1 where dc: "deepcopy_items kvs [] s = (r1, s1)" by (cases "deepcopy_items kvs [] s")
    have "\<forall>a\<in>snd ` set ([] :: (nat \<times> nat) list). ?n0 \<le> a" by simp
    from deepcopy_items_keeps[OF le_refl this dc, of ?d0]
    have k1: "keeps ?n0 ?d0 s s1" and d1: "dicts s1 = dicts s"
      and fr: "\<forall>kvs' memo'. r1 = Inr (kvs', memo') \<longrightarrow> (\<forall>a\<in>snd ` set kvs'. ?n0 \<le> a)"
      by simp_all
    show ?thesis
    proof (cases r1)
      case (Inl e)
      with Inr dc k1 show ?thesis by (simp add: average_weights_def Cons deepcopy_dict_def)
    next
      case r1: (Inr p)
      obtain kvs' memo' where p: "p = (kvs', memo')" by (cases p)
      let ?s2 = "s1\<lparr>dicts := dicts s1 @ [kvs']\<rparr>"
      have dd: "deepcopy_dict m0 s = (Inr ?d0, ?s2)"
        using Inr dc r1 p d1 by (simp add: deepcopy_dict_def)
      have k2: "keeps ?n0 ?d0 s ?s2" using k1 d1 by (simp add: keeps_def)
      have wd: "dict_at ?s2 ?d0 = Inr kvs'" by (simp add: dict_at_def d1)
      have f2: "fresh_values ?n0 ?d0 ?s2" using fr r1 p d1 by (simp add: fresh_values_def)
      have n2: "?n0 \<le> length (tensors ?s2)" using k1 by (simp add: keeps_def)
      obtain r3 s3 where ak: "average_keys (map fst kvs') ?d0 models ?s2 = (r3, s3)"
        by (cases "average_keys (map fst kvs') ?d0 models ?s2")
      from average_keys_keeps[OF le_refl f2 n2 ak] have k3: "keeps ?n0 ?d0 ?s2 s3" .
      have "snd (average_weights models s) = s3"
        using dd wd ak by (simp add: average_weights_def Cons split: sum.splits)
      with keeps_trans[OF k2 k3] show ?thesis by simp
    qed
  qed
qed

text \<open>
  Claim C10 (no mutation of the inputs). Whatever the list \<open>models\<close> and whether the call
  returns or raises, every tensor and every dictionary that existed before the call
  holds the same value after it: the call writes only to the objects it creates (the
  deep copy of \<^verbatim>\<open>models[0]\<close> and the quotients).
\<close>

theorem average_weights_frame:
  "take (length (tensors s)) (tensors (snd (average_weights models s))) = tensors s \<and>
   take (length (dicts s)) (dicts (snd (average_weights models s))) = dicts s"
  using average_weights_keeps[of s models] by (simp add: keeps_def)

subsection \<open>What a call computes\<close>














text \<open>
  Sharing inside the first dictionary matters too. Below, \<open>w\<close> and \<open>b\<close> of the first
  dictionary are one tensor object \<open>[1, 2]\<close>; the deep copy keeps them one object, so the
  additions made for \<open>w\<close> are still in it when \<open>b\<close> is accumulated: \<open>b\<close> becomes
  \<open>([1, 2] + [3, 6] + [5, 10]) / 2\<close> instead of \<open>([1, 2] + [5, 10]) / 2\<close>.
\<close>

lemma shared_tensor_example:
  "average_weights [0, 1]
     \<lparr>tensors = [\<lparr>shape = [2], entries = [1, 2]\<rparr>, \<lparr>shape = [2], entries = [3, 6]\<rparr>,
                \<lparr>shape = [2], entries = [5, 10]\<rparr>],
      dicts = [[(''w'', 0), (''b'', 0)], [(''w'', 1), (''b'', 2)]]\<rparr>
   = (Inr 2,
      \<lparr>tensors = [\<lparr>shape = [2], entries = [1, 2]\<rparr>, \<lparr>shape = [2], entries = [3, 6]\<rparr>,
                 \<lparr>shape = [2], entries = [5, 10]\<rparr>, \<lparr>shape = [2], entries = [9, 18]\<rparr>,
                 \<lparr>shape = [2], entries = [2, 4]\<rparr>, \<lparr>shape = [2], entries = [9 / 2, 9]\<rparr>],
       dicts = [[(''w'', 0), (''b'', 0)], [(''w'', 1), (''b'', 2)], [(''w'', 4), (''b'', 5)]]\<rparr>)"
  by code_simp

section \<open>Properties of the evaluator\<close>








subsection \<open>The claims about the partitioner\<close>

text \<open>
  Claim C2 (partition determinism). Two calls with the same arguments over the same dataset
  return the same result, whatever state the global generator is in when each call is
  made: the first thing a call does is to reseed the generator, so the state \<open>g0\<close> left
  by anything before it (a previous call included) has no influence.
\<close>
theorem partition_deterministic:
  "dataset_to_nodes_partitioning seed_state train_dataset g0 nodes_count areas random_seed
       shuffling data_fraction
   = dataset_to_nodes_partitioning seed_state train_dataset g0' nodes_count areas random_seed
       shuffling data_fraction"
  by (simp add: dataset_to_nodes_partitioning_def np_random_seed_def)

text \<open>
  Claim C3 (label restriction). In the mapping a call returns, every record index of a
  device is an index into the dataset, and the label of that record is one of the
  device's allowed labels.
\<close>
theorem label_restriction:
  assumes "dataset_to_nodes_partitioning seed_state train_dataset g0 nodes_count areas
             random_seed shuffling data_fraction = Inr (index_mapping, g')"
    and "index_mapping node = Some (idxs, allowed_labels)"
    and "r \<in> set idxs"
  shows "r < length (items train_dataset) \<and> snd (items train_dataset ! r) \<in> set allowed_labels"
proof -
  from partition_entry[OF assms(1,2)] obtain perm srn indexes c where
    perm: "mset perm = mset (records_per_class train_dataset allowed_labels)"
    and srn: "array_split perm (nodes_count div areas) = Inr srn"
    and c: "c < length srn"
    and idxs: "idxs = map (\<lambda>j. srn ! c ! j) indexes"
    and bd: "\<forall>j\<in>set indexes. j < length (srn ! c)"
    by blast
  from assms(3) idxs bd have "r \<in> set (srn ! c)" by auto
  with concat_nth_subset[OF c] have "r \<in> set (concat srn)" by blast
  then have "r \<in> set perm" using array_split_Inr(3)[OF srn] by simp
  then have "r \<in> set (records_per_class train_dataset allowed_labels)"
    using perm by (metis set_mset_mset)
  then show ?thesis by (simp add: set_records_per_class)
qed

theorem label_restriction_witness:
  "\<not> isl (dataset_to_nodes_partitioning (\<lambda>s i. i * 7 + nat s)
             \<lparr>items = [((), 0), ((), 1), ((), 0), ((), 1), ((), 1), ((), 0)], classes = [''a'', ''b'']\<rparr>
             (\<lambda>i. 0) 4 2 1 True 1)
   \<and> fst (projr (dataset_to_nodes_partitioning (\<lambda>s i. i * 7 + nat s)
             \<lparr>items = [((), 0), ((), 1), ((), 0), ((), 1), ((), 1), ((), 0)], classes = [''a'', ''b'']\<rparr>
             (\<lambda>i. 0) 4 2 1 True 1)) 2 = Some ([4, 3], [1])
   \<and> 4 < length (items \<lparr>items = [((), 0::nat), ((), 1), ((), 0), ((), 1), ((), 1), ((), 0)], classes = [''a'', ''b'']\<rparr>)
   \<and> snd (items \<lparr>items = [((), 0::nat), ((), 1), ((), 0), ((), 1), ((), 1), ((), 0)], classes = [''a'', ''b'']\<rparr> ! 4) \<in> set [1]"
proof -
  let ?P = "dataset_to_nodes_partitioning (\<lambda>s i. i * 7 + nat s)
             \<lparr>items = [((), 0), ((), 1), ((), 0), ((), 1), ((), 1), ((), 0)], classes = [''a'', ''b'']\<rparr>
             (\<lambda>i. 0) 4 2 1 True 1"
  have ok: "\<not> isl ?P" by code_simp
  then have eq: "?P = Inr (fst (projr ?P), snd (projr ?P))" by simp
  have e: "fst (projr ?P) 2 = Some ([4, 3], [1])" by code_simp
  have "(4::nat) \<in> set [4, 3]" by simp
  from label_restriction[OF eq e this] ok e show ?thesis by simp
qed


text \<open>
  Claim C4 (partition coverage). Whenever a call returns a mapping: every area has at
  least one device, every device of area \<open>i\<close> carries the \<open>i\<close>-th block of labels as its
  allowed labels, the label blocks of distinct areas are disjoint, and the union of the
  allowed labels of all devices is the full set of label classes.
\<close>
theorem partition_coverage:
  assumes "dataset_to_nodes_partitioning seed_state train_dataset g0 nodes_count areas
             random_seed shuffling data_fraction = Inr (index_mapping, g')"
  shows "\<exists>split_nodes_per_area split_classes_per_area.
           array_split (arange nodes_count) areas = Inr split_nodes_per_area \<and>
           array_split (arange (int (length (classes train_dataset)))) areas
             = Inr split_classes_per_area \<and>
           (\<forall>i<nat areas. split_nodes_per_area ! i \<noteq> [] \<and>
              (\<forall>node\<in>set (split_nodes_per_area ! i).
                 \<exists>idxs. index_mapping node = Some (idxs, split_classes_per_area ! i))) \<and>
           (\<forall>i<nat areas. \<forall>j<nat areas. i \<noteq> j \<longrightarrow>
              set (split_classes_per_area ! i) \<inter> set (split_classes_per_area ! j) = {}) \<and>
           (\<Union>node\<in>dom index_mapping. set (snd (the (index_mapping node))))
             = {0..<length (classes train_dataset)}"
proof -
  note pos = partition_Inr_pos[OF assms]
  from partition_Inr[OF assms] obtain sn sc where
    sn: "array_split (arange nodes_count) areas = Inr sn"
    and sc: "array_split (arange (int (length (classes train_dataset)))) areas = Inr sc"
    by blast
  have lsn: "length sn = nat areas" and lsc: "length sc = nat areas"
    using array_split_Inr(2)[OF sn] array_split_Inr(2)[OF sc] by simp_all
  have csc: "concat sc = [0..<length (classes train_dataset)]"
    using array_split_Inr(3)[OF sc] by (simp add: arange_def)
  have ne: "sn ! i \<noteq> []" if "i < nat areas" for i
  proof -
    have "1 \<le> length (arange nodes_count) div nat areas"
      using pos(1,3) by (simp add: arange_def div_greater_zero_iff Suc_leI nat_le_iff)
    then have "1 \<le> length (sn ! i)" using array_split_Inr(4)[OF sn that] by simp
    then show ?thesis by auto
  qed
  have ent: "\<exists>idxs. index_mapping node = Some (idxs, sc ! i)"
    if "i < nat areas" "node \<in> set (sn ! i)" for i node
    using partition_area_entry[OF assms sn sc that] .
  have dis: "set (sc ! i) \<inter> set (sc ! j) = {}" if "i < nat areas" "j < nat areas" "i \<noteq> j" for i j
    using distinct_concat_nth_disjoint[of sc i j] that lsc csc by simp
  have un: "(\<Union>node\<in>dom index_mapping. set (snd (the (index_mapping node))))
             = {0..<length (classes train_dataset)}"
  proof (intro set_eqI iffI)
    fix c assume "c \<in> (\<Union>node\<in>dom index_mapping. set (snd (the (index_mapping node))))"
    then obtain node idxs allowed where e: "index_mapping node = Some (idxs, allowed)"
      and c: "c \<in> set allowed" by force
    from partition_entry[OF assms e] sc obtain i where "i < nat areas" "allowed = sc ! i" by auto
    then have "set allowed \<subseteq> set (concat sc)" using concat_nth_subset[of i sc] lsc by simp
    with c csc show "c \<in> {0..<length (classes train_dataset)}" by auto
  next
    fix c assume "c \<in> {0..<length (classes train_dataset)}"
    then have "c \<in> set (concat sc)" using csc by simp
    then obtain cs where "cs \<in> set sc" "c \<in> set cs" by auto
    then obtain i where i: "i < length sc" "c \<in> set (sc ! i)" by (metis in_set_conv_nth)
    then have ia: "i < nat areas" using lsc by simp
    from ne[OF ia] obtain node where node: "node \<in> set (sn ! i)" by (cases "sn ! i") auto
    from ent[OF ia node] obtain idxs where e: "index_mapping node = Some (idxs, sc ! i)" by blast
    then have "node \<in> dom index_mapping" by auto
    moreover have "c \<in> set (snd (the (index_mapping node)))" using e i(2) by simp
    ultimately show "c \<in> (\<Union>node\<in>dom index_mapping. set (snd (the (index_mapping node))))"
      by blast
  qed
  show ?thesis using sn sc ne ent dis un by blast
qed


theorem partition_coverage_witness:
  "\<not> isl (dataset_to_nodes_partitioning (\<lambda>s i. i * 7 + nat s)
             \<lparr>items = [((), 0), ((), 1), ((), 0), ((), 1), ((), 1), ((), 0)], classes = [''a'', ''b'']\<rparr>
             (\<lambda>i. 0) 4 2 1 True 1)
   \<and> (\<Union>node\<in>dom (fst (projr (dataset_to_nodes_partitioning (\<lambda>s i. i * 7 + nat s)
             \<lparr>items = [((), 0), ((), 1), ((), 0), ((), 1), ((), 1), ((), 0)], classes = [''a'', ''b'']\<rparr>
             (\<lambda>i. 0) 4 2 1 True 1))).
          set (snd (the (fst (projr (dataset_to_nodes_partitioning (\<lambda>s i. i * 7 + nat s)
             \<lparr>items = [((), 0), ((), 1), ((), 0), ((), 1), ((), 1), ((), 0)], classes = [''a'', ''b'']\<rparr>
             (\<lambda>i. 0) 4 2 1 True 1)) node)))) = {0..<2}"
proof -
  let ?P = "dataset_to_nodes_partitioning (\<lambda>s i. i * 7 + nat s)
             \<lparr>items = [((), 0), ((), 1), ((), 0), ((), 1), ((), 1), ((), 0)], classes = [''a'', ''b'']\<rparr>
             (\<lambda>i. 0) 4 2 1 True 1"
  have ok: "\<not> isl ?P" by code_simp
  then have eq: "?P = Inr (fst (projr ?P), snd (projr ?P))" by simp
  from partition_coverage[OF eq] have
    "(\<Union>node\<in>dom (fst (projr ?P)). set (snd (the (fst (projr ?P) node))))
       = {0..<length (classes \<lparr>items = [((), 0::nat), ((), 1), ((), 0), ((), 1), ((), 1), ((), 0)], classes = [''a'', ''b'']\<rparr>)}"
    by blast
  with ok show ?thesis by (simp add: eval_nat_numeral)
qed



text \<open>
  The count is not the floor of the exact product, whichever number \<^verbatim>\<open>data_fraction\<close> is
  read as. A single device holding a chunk of ten records with \<^verbatim>\<open>data_fraction = 0.7\<close>
  receives seven indices, while the double \<^verbatim>\<open>0.7\<close> lies below \<open>7/10\<close> and ten times it has
  floor six. A single device holding a chunk of fifty records with
  \<^verbatim>\<open>data_fraction = 0.58\<close> receives 28 indices, while the floor of \<open>50 * 58/100\<close> is 29.
\<close>

theorem rounded_product_counterexample:
  "length (fst (the (fst (projr (dataset_to_nodes_partitioning (\<lambda>s i. i * 7 + nat s)
             \<lparr>items = replicate 10 ((), 0), classes = [''a'']\<rparr>
             (\<lambda>i. 0) 1 1 1 False (7 / 10))) 0))) = 7
   \<and> \<lfloor>of_nat (length (replicate 10 ((), 0::nat))) * round_to_double (7 / 10)\<rfloor> = 6
   \<and> length (fst (the (fst (projr (dataset_to_nodes_partitioning (\<lambda>s i. i * 7 + nat s)
             \<lparr>items = replicate 50 ((), 0), classes = [''a'']\<rparr>
             (\<lambda>i. 0) 1 1 1 False (58 / 100))) 0))) = 28
   \<and> \<lfloor>of_nat (length (replicate 50 ((), 0::nat))) * (58 / 100 :: rat)\<rfloor> = 29"
  by code_simp

text \<open>
  Claim C7 (configuration errors), as the code has it. With a valid seed and a
  non-negative \<^verbatim>\<open>data_fraction\<close>, a call raises exactly when \<^verbatim>\<open>areas\<close> is not positive or
  exceeds \<^verbatim>\<open>nodes_count\<close>. The number of label classes plays no part: the second theorem
  below runs a call with eleven areas over ten label classes, which returns a mapping
  whose last device has no allowed label and no record.
\<close>
theorem partition_fails_iff:
  assumes "0 \<le> random_seed" "random_seed < 2 ^ 32" "0 \<le> data_fraction"
  shows "isl (dataset_to_nodes_partitioning seed_state train_dataset g0 nodes_count areas
               random_seed shuffling data_fraction)
         \<longleftrightarrow> areas \<le> 0 \<or> nodes_count < areas"
proof
  assume l: "isl (dataset_to_nodes_partitioning seed_state train_dataset g0 nodes_count areas
               random_seed shuffling data_fraction)"
  show "areas \<le> 0 \<or> nodes_count < areas"
  proof (rule ccontr)
    assume "\<not> (areas \<le> 0 \<or> nodes_count < areas)"
    then have "0 < areas" "areas \<le> nodes_count" by simp_all
    from partition_succeeds[OF assms(1,2) this assms(3)] l show False by (metis sum.disc(2))
  qed
next
  assume r: "areas \<le> 0 \<or> nodes_count < areas"
  show "isl (dataset_to_nodes_partitioning seed_state train_dataset g0 nodes_count areas
               random_seed shuffling data_fraction)"
  proof (rule ccontr)
    assume "\<not> ?thesis"
    then obtain m g' where "dataset_to_nodes_partitioning seed_state train_dataset g0 nodes_count
          areas random_seed shuffling data_fraction = Inr (m, g')"
      by (metis isl_def sum.exhaust_sel surj_pair sum.collapse(2))
    from partition_Inr_pos(1,3)[OF this] r show False by simp
  qed
qed

theorem partition_fails_iff_witness:
  "(0::int) \<le> 1 \<and> (1::int) < 2 ^ 32 \<and> (0::rat) \<le> 1
   \<and> isl (dataset_to_nodes_partitioning (\<lambda>s i. i * 7 + nat s)
             \<lparr>items = [((), 0), ((), 1), ((), 0), ((), 1), ((), 1), ((), 0)], classes = [''a'', ''b'']\<rparr>
             (\<lambda>i. 0) 1 2 1 False 1)
   \<and> \<not> isl (dataset_to_nodes_partitioning (\<lambda>s i. i * 7 + nat s)
             \<lparr>items = [((), 0), ((), 1), ((), 0), ((), 1), ((), 1), ((), 0)], classes = [''a'', ''b'']\<rparr>
             (\<lambda>i. 0) 2 2 1 False 1)"
proof -
  have a: "(0::int) \<le> 1" "(1::int) < 2 ^ 32" "(0::rat) \<le> 1" by simp_all
  have "isl (dataset_to_nodes_partitioning seed_state train_dataset g0 1 2 1 shuffling 1)"
    for seed_state and train_dataset :: "unit dataset" and g0 shuffling
    using partition_fails_iff[OF a, where nodes_count = 1 and areas = 2] by simp
  moreover have "\<not> isl (dataset_to_nodes_partitioning seed_state train_dataset g0 2 2 1 shuffling 1)"
    for seed_state and train_dataset :: "unit dataset" and g0 shuffling
    using partition_fails_iff[OF a, where nodes_count = 2 and areas = 2] by simp
  ultimately show ?thesis using a by blast
qed

theorem excess_areas_counterexample:
  "\<not> isl (dataset_to_nodes_partitioning (\<lambda>s i. i * 7 + nat s)
            \<lparr>items = [((), 0), ((), 1), ((), 2), ((), 3), ((), 4), ((), 5), ((), 6), ((), 7),
                       ((), 8), ((), 9), ((), 0), ((), 1)],
              classes = [''zero'', ''one'', ''two'', ''three'', ''four'', ''five'', ''six'', ''seven'', ''eight'', ''nine'']\<rparr>
            (\<lambda>i. 0) 11 11 1 False 1)
   \<and> fst (projr (dataset_to_nodes_partitioning (\<lambda>s i. i * 7 + nat s)
            \<lparr>items = [((), 0), ((), 1), ((), 2), ((), 3), ((), 4), ((), 5), ((), 6), ((), 7),
                       ((), 8), ((), 9), ((), 0), ((), 1)],
              classes = [''zero'', ''one'', ''two'', ''three'', ''four'', ''five'', ''six'', ''seven'', ''eight'', ''nine'']\<rparr>
            (\<lambda>i. 0) 11 11 1 False 1)) 10 = Some ([], [])"
  by code_simp

text \<open>
  Claim C6 (disjoint shards) at an input where \<^verbatim>\<open>areas\<close> does not divide \<^verbatim>\<open>nodes_count\<close>:
  five devices in two areas. The first area has the three devices 0, 1, 2 but its
  records are cut into \<^verbatim>\<open>int(5 / 2) = 2\<close> pieces, so devices 0 and 2 both draw from
  piece \<open>0\<close>. Here that piece holds the single record 0, and both devices receive it.
\<close>

theorem uneven_split_shares_chunk:
  "fst (projr (dataset_to_nodes_partitioning (\<lambda>s i. i * 7 + nat s)
          \<lparr>items = [((), 0), ((), 1), ((), 5)],
            classes = [''zero'', ''one'', ''two'', ''three'', ''four'', ''five'', ''six'', ''seven'', ''eight'', ''nine'']\<rparr>
          (\<lambda>i. 0) 5 2 1 False 1)) 0 = Some ([0], [0, 1, 2, 3, 4])
   \<and> fst (projr (dataset_to_nodes_partitioning (\<lambda>s i. i * 7 + nat s)
          \<lparr>items = [((), 0), ((), 1), ((), 5)],
            classes = [''zero'', ''one'', ''two'', ''three'', ''four'', ''five'', ''six'', ''seven'', ''eight'', ''nine'']\<rparr>
          (\<lambda>i. 0) 5 2 1 False 1)) 2 = Some ([0], [0, 1, 2, 3, 4])"
  by code_simp

end

